theory Spec2Isabelle
  imports Complex_Main "HOL-Library.Multiset"
begin

section \<open>Order book aggregator (api.py)\<close>

text \<open>
  The program polls two venues (Coinbase, Gemini) for the BTC-USD order book, merges the two
  snapshots into one internal book and prices a market order against it. The model below
  follows \<^verbatim>\<open>api.py\<close> method by method. Threads and locks are not modelled: every
  method is one atomic step on the \<open>OrderBook\<close> object, and what a method reads from the
  outside world (the clock, the HTTP reply) is an argument of its model.
\<close>

subsection \<open>Python floats\<close>

text \<open>
  A finite Python float is a rational number, and the result of \<open>+\<close>, \<open>-\<close> and \<open>*\<close> on
  floats is the exact result rounded to a float. The rounding is written out: every model
  of a method that computes takes the rounding \<open>fl\<close> as its first argument and applies it to
  each arithmetic result. Comparison and \<open>min\<close> do not round. The rounding of the
  program is \<open>binary64\<close> (IEEE 754 double precision, round to nearest, ties to even,
  which is what CPython computes); \<open>exact\<close> is no rounding, the arithmetic of the
  rationals. Infinities and NaN are not modelled.
\<close>

type_synonym rounding = "rat \<Rightarrow> rat"

definition exact :: rounding where
  "exact x = x"

definition round_half_even :: "rat \<Rightarrow> int" where
  "round_half_even x =
     (let f = \<lfloor>x\<rfloor>; d = x - of_int f
      in if d < 1 / 2 then f
         else if 1 / 2 < d then f + 1
         else if even f then f else f + 1)"

text \<open>The number of binary digits of a positive integer (\<open>0\<close> for the others).\<close>

function bit_length :: "int \<Rightarrow> int" where
  "bit_length n = (if n \<le> 0 then 0 else 1 + bit_length (n div 2))"
  by pat_completeness auto
termination
  by (relation "measure nat") auto

declare bit_length.simps [simp del]

text \<open>\<open>exponent x\<close> is the \<open>e\<close> with \<open>2 ^ e \<le> x < 2 ^ (e + 1)\<close>, for \<open>x > 0\<close>.\<close>

definition exponent :: "rat \<Rightarrow> int" where
  "exponent x =
     (let (a, b) = quotient_of x;
          n = bit_length a - bit_length b
      in if 2 powi n \<le> x then n else n - 1)"

text \<open>
  The exact result \<open>x\<close> is rounded to the nearest multiple of the unit of its exponent
  (53 significant binary digits), ties to even; below the normal range the unit stays
  \<open>2 ^ -1074\<close> (subnormal numbers). A result that rounds to \<open>2 ^ 1024\<close> or beyond is
  infinite in Python: the model has no infinity and gives \<open>2 * x\<close> there, which is never
  \<open>x\<close>, so that the numbers \<open>binary64\<close> leaves as they are are the finite floats.
\<close>

definition infinity_threshold :: rat where
  "infinity_threshold = 2 powi 1024"

definition binary64 :: rounding where
  "binary64 x =
     (if x = 0 then 0
      else let u = 2 powi (max (exponent \<bar>x\<bar>) (- 1022) - 52);
               r = u * of_int (round_half_even (x / u))
           in if infinity_threshold \<le> \<bar>r\<bar> then 2 * x else r)"

subsection \<open>RateLimiter\<close>

record rate_limiter =
  min_interval :: rat
  last_called :: rat

definition RateLimiter :: "rat \<Rightarrow> rate_limiter" where
  "RateLimiter min_interval_seconds =
     \<lparr>min_interval = min_interval_seconds, last_called = 0\<rparr>"

text \<open>\<open>allow\<close>: \<open>now\<close> is what \<open>time.time()\<close> returns inside the call.\<close>

definition allow :: "rounding \<Rightarrow> rate_limiter \<Rightarrow> rat \<Rightarrow> bool \<times> rate_limiter" where
  "allow fl rl now =
     (if min_interval rl \<le> fl (now - last_called rl)
      then (True, rl\<lparr>last_called := now\<rparr>)
      else (False, rl))"

text \<open>
  A sequence of \<open>allow\<close> calls on one limiter, at the clock readings \<open>nows\<close>: the reading
  and the answer of each call, in call order.
\<close>

fun allow_calls :: "rounding \<Rightarrow> rate_limiter \<Rightarrow> rat list \<Rightarrow> (rat \<times> bool) list" where
  "allow_calls fl rl [] = []"
| "allow_calls fl rl (now # nows) =
     (case allow fl rl now of (ok, rl') \<Rightarrow> (now, ok) # allow_calls fl rl' nows)"

text \<open>The clock readings of the calls that returned \<open>True\<close>.\<close>

definition allowed_at :: "rounding \<Rightarrow> rate_limiter \<Rightarrow> rat list \<Rightarrow> rat list" where
  "allowed_at fl rl nows = map fst (filter snd (allow_calls fl rl nows))"

subsection \<open>OrderBook: the data\<close>

datatype error =
  RequestException | HTTPError | JSONDecodeError | TypeError | IndexError | KeyError | ValueError

text \<open>
  A venue's payload is the JSON object the venue returned, kept as received: a dictionary
  from a key to a list of levels. A Coinbase level is an array \<open>[price, size, ...]\<close>, a
  Gemini level an object with the keys \<open>price\<close> and \<open>amount\<close>. The scalars \<open>'r\<close> are what
  the JSON holds (strings, on both venues); the builtin \<open>float\<close> that converts them is a
  parameter \<open>pyfloat\<close> of the model, \<open>Inl\<close> where it raises.
\<close>

type_synonym 'l payload = "(string \<times> 'l list) list"
type_synonym 'r coinbase_level = "'r list"
type_synonym 'r gemini_level = "(string \<times> 'r) list"

record level =
  price :: rat
  size_lvl :: rat
  exchange :: string

record book =
  bids :: "level list"
  asks :: "level list"

record 'r order_book =
  coinbase_order_book :: "'r coinbase_level payload option"
  gemini_order_book :: "'r gemini_level payload option"
  internal_order_book :: "book option"
  depth :: "int option"
  coinbase_limiter :: rate_limiter
  gemini_limiter :: rate_limiter

definition OrderBook :: "int option \<Rightarrow> 'r order_book" where
  "OrderBook d =
     \<lparr>coinbase_order_book = None, gemini_order_book = None, internal_order_book = None,
      depth = d, coinbase_limiter = RateLimiter 2, gemini_limiter = RateLimiter 2\<rparr>"

subsection \<open>Fetching\<close>

text \<open>
  What the network does when asked: \<open>requests.get\<close> raises, \<open>raise_for_status\<close> raises,
  \<open>response.json()\<close> raises, or the payload arrives.
\<close>

datatype 'p reply = ConnectionFailed | BadStatus | BadJson | Json 'p

text \<open>
  A fetch returns the exception that left the method (if any), the URLs it requested, and
  the object as the method left it.
\<close>

definition http_get :: "'p reply \<Rightarrow> error + 'p" where
  "http_get r =
     (case r of
        ConnectionFailed \<Rightarrow> Inl RequestException
      | BadStatus \<Rightarrow> Inl HTTPError
      | BadJson \<Rightarrow> Inl JSONDecodeError
      | Json data \<Rightarrow> Inr data)"

definition coinbase_url :: string where
  "coinbase_url = ''https://api.exchange.coinbase.com/products/BTC-USD/book''"

definition gemini_url :: string where
  "gemini_url = ''https://api.gemini.com/v1/book/BTCUSD''"

definition fetch_coinbase ::
  "rounding \<Rightarrow> 'r order_book \<Rightarrow> rat \<Rightarrow> 'r coinbase_level payload reply
     \<Rightarrow> error option \<times> string list \<times> 'r order_book" where
  "fetch_coinbase fl ob now r =
     (case allow fl (coinbase_limiter ob) now of
        (False, _) \<Rightarrow> (None, [], ob)
      | (True, rl) \<Rightarrow>
          (let ob1 = ob\<lparr>coinbase_limiter := rl\<rparr>
           in case http_get r of
                Inl e \<Rightarrow> (Some e, [coinbase_url], ob1)
              | Inr data \<Rightarrow> (None, [coinbase_url], ob1\<lparr>coinbase_order_book := Some data\<rparr>)))"

definition fetch_gemini ::
  "rounding \<Rightarrow> 'r order_book \<Rightarrow> rat \<Rightarrow> 'r gemini_level payload reply
     \<Rightarrow> error option \<times> string list \<times> 'r order_book" where
  "fetch_gemini fl ob now r =
     (case allow fl (gemini_limiter ob) now of
        (False, _) \<Rightarrow> (None, [], ob)
      | (True, rl) \<Rightarrow>
          (let ob1 = ob\<lparr>gemini_limiter := rl\<rparr>
           in case http_get r of
                Inl e \<Rightarrow> (Some e, [gemini_url], ob1)
              | Inr data \<Rightarrow> (None, [gemini_url], ob1\<lparr>gemini_order_book := Some data\<rparr>)))"

text \<open>
  The worker threads are \<open>while True: ob.fetch_...(); time.sleep(2)\<close>. A run is modelled
  on the first iterations of the loop, one pair (clock reading, network reply) for each:
  the thread is still \<open>Running\<close> after them, or an exception left the loop and the thread
  \<open>Died\<close>, the remaining iterations never running.
\<close>

datatype 'a thread = Running 'a | Died error 'a

fun coinbase_worker ::
  "rounding \<Rightarrow> 'r order_book \<Rightarrow> (rat \<times> 'r coinbase_level payload reply) list
     \<Rightarrow> 'r order_book thread" where
  "coinbase_worker fl ob [] = Running ob"
| "coinbase_worker fl ob ((now, r) # rest) =
     (case fetch_coinbase fl ob now r of
        (Some e, _, ob') \<Rightarrow> Died e ob'
      | (None, _, ob') \<Rightarrow> coinbase_worker fl ob' rest)"

fun gemini_worker ::
  "rounding \<Rightarrow> 'r order_book \<Rightarrow> (rat \<times> 'r gemini_level payload reply) list
     \<Rightarrow> 'r order_book thread" where
  "gemini_worker fl ob [] = Running ob"
| "gemini_worker fl ob ((now, r) # rest) =
     (case fetch_gemini fl ob now r of
        (Some e, _, ob') \<Rightarrow> Died e ob'
      | (None, _, ob') \<Rightarrow> gemini_worker fl ob' rest)"

subsection \<open>Building the internal order book\<close>

text \<open>
  \<open>book.get(key) if book else []\<close>: an absent (\<open>None\<close>) or empty dictionary gives the
  empty list, a dictionary without the key gives Python's \<open>None\<close> (here \<open>None\<close>).
\<close>

definition side_of :: "'l payload option \<Rightarrow> string \<Rightarrow> 'l list option" where
  "side_of venue_book key =
     (case venue_book of
        None \<Rightarrow> Some []
      | Some d \<Rightarrow> if d = [] then Some [] else map_of d key)"

text \<open>
  \<open>min(self.depth, len(xs)) if self.depth else len(xs)\<close>: \<open>None\<close> and \<open>0\<close> are both
  false.
\<close>

definition side_depth :: "int option \<Rightarrow> 'l list \<Rightarrow> int" where
  "side_depth d xs =
     (case d of
        None \<Rightarrow> int (length xs)
      | Some n \<Rightarrow> if n \<noteq> 0 then min n (int (length xs)) else int (length xs))"

text \<open>The slice \<open>xs[:n]\<close>: a negative \<open>n\<close> counts from the end.\<close>

definition slice_to :: "'a list \<Rightarrow> int \<Rightarrow> 'a list" where
  "slice_to xs n = (if n < 0 then take (nat (int (length xs) + n)) xs else take (nat n) xs)"

text \<open>
  The levels one loop runs over, \<open>xs[: depth]\<close> with the depth computed for \<open>xs\<close>.
  \<open>len(None)\<close> raises \<open>TypeError\<close>.
\<close>

definition depth_levels :: "int option \<Rightarrow> 'l list option \<Rightarrow> error + 'l list" where
  "depth_levels d side =
     (case side of
        None \<Rightarrow> Inl TypeError
      | Some xs \<Rightarrow> Inr (slice_to xs (side_depth d xs)))"

text \<open>The body of the two Coinbase loops: \<open>level[0]\<close>, \<open>level[1]\<close>, each through \<open>float\<close>.\<close>

definition coinbase_level :: "('r \<Rightarrow> error + rat) \<Rightarrow> 'r coinbase_level \<Rightarrow> error + level" where
  "coinbase_level pyfloat lv =
     (case lv of
        [] \<Rightarrow> Inl IndexError
      | p # rest \<Rightarrow>
          (case pyfloat p of
             Inl e \<Rightarrow> Inl e
           | Inr price' \<Rightarrow>
               (case rest of
                  [] \<Rightarrow> Inl IndexError
                | s # _ \<Rightarrow>
                    (case pyfloat s of
                       Inl e \<Rightarrow> Inl e
                     | Inr size' \<Rightarrow>
                         Inr \<lparr>price = price', size_lvl = size', exchange = ''coinbase''\<rparr>))))"

text \<open>The body of the two Gemini loops: \<open>level["price"]\<close>, \<open>level["amount"]\<close>.\<close>

definition gemini_level :: "('r \<Rightarrow> error + rat) \<Rightarrow> 'r gemini_level \<Rightarrow> error + level" where
  "gemini_level pyfloat lv =
     (case map_of lv ''price'' of
        None \<Rightarrow> Inl KeyError
      | Some p \<Rightarrow>
          (case pyfloat p of
             Inl e \<Rightarrow> Inl e
           | Inr price' \<Rightarrow>
               (case map_of lv ''amount'' of
                  None \<Rightarrow> Inl KeyError
                | Some s \<Rightarrow>
                    (case pyfloat s of
                       Inl e \<Rightarrow> Inl e
                     | Inr size' \<Rightarrow>
                         Inr \<lparr>price = price', size_lvl = size', exchange = ''gemini''\<rparr>))))"

text \<open>
  A \<open>for level in ...: acc.append(...)\<close> loop: the levels in order, appended to what the
  list holds; the first exception leaves the loop.
\<close>

fun append_levels :: "('l \<Rightarrow> error + level) \<Rightarrow> 'l list \<Rightarrow> level list \<Rightarrow> error + level list" where
  "append_levels f [] acc = Inr acc"
| "append_levels f (lv # lvs) acc =
     (case f lv of
        Inl e \<Rightarrow> Inl e
      | Inr l \<Rightarrow> append_levels f lvs (acc @ [l]))"

definition bind_err :: "error + 'a \<Rightarrow> ('a \<Rightarrow> error + 'b) \<Rightarrow> error + 'b" where
  "bind_err m k = (case m of Inl e \<Rightarrow> Inl e | Inr x \<Rightarrow> k x)"

text \<open>The value of \<open>new_internal_book\<close>, or the exception raised before it is built.\<close>

definition new_internal_book ::
  "('r \<Rightarrow> error + rat) \<Rightarrow> int option
     \<Rightarrow> 'r coinbase_level payload option \<Rightarrow> 'r gemini_level payload option \<Rightarrow> error + book" where
  "new_internal_book pyfloat d coinbase_book gemini_book =
     (let coinbase_bids = side_of coinbase_book ''bids'';
          gemini_bids = side_of gemini_book ''bids'';
          coinbase_asks = side_of coinbase_book ''asks'';
          gemini_asks = side_of gemini_book ''asks''
      in bind_err (depth_levels d coinbase_bids) (\<lambda>coinbase_bids_top.
         bind_err (depth_levels d gemini_bids) (\<lambda>gemini_bids_top.
         bind_err (depth_levels d coinbase_asks) (\<lambda>coinbase_asks_top.
         bind_err (depth_levels d gemini_asks) (\<lambda>gemini_asks_top.
         bind_err (append_levels (coinbase_level pyfloat) coinbase_bids_top []) (\<lambda>bids1.
         bind_err (append_levels (gemini_level pyfloat) gemini_bids_top bids1) (\<lambda>bids2.
         bind_err (append_levels (coinbase_level pyfloat) coinbase_asks_top []) (\<lambda>asks1.
         bind_err (append_levels (gemini_level pyfloat) gemini_asks_top asks1) (\<lambda>asks2.
         Inr \<lparr>bids = bids2, asks = asks2\<rparr>)))))))))"

definition build_internal_order_book ::
  "('r \<Rightarrow> error + rat) \<Rightarrow> 'r order_book \<Rightarrow> error option \<times> 'r order_book" where
  "build_internal_order_book pyfloat ob =
     (case new_internal_book pyfloat (depth ob) (coinbase_order_book ob) (gemini_order_book ob) of
        Inl e \<Rightarrow> (Some e, ob)
      | Inr b \<Rightarrow> (None, ob\<lparr>internal_order_book := Some b\<rparr>))"

subsection \<open>Execution prices\<close>

text \<open>A fill is the tuple \<open>(exchange, size_take, price, cost)\<close> the loops append.\<close>

type_synonym fill = "string \<times> rat \<times> rat \<times> rat"

text \<open>
  The buy loop over the sorted asks and the sell loop over the sorted bids are the same
  loop: \<open>remaining\<close>, \<open>tot\<close> and \<open>fills\<close> are \<open>remaining_buy\<close>, \<open>cost_buy\<close>, \<open>buy_fills\<close>
  there and \<open>remaining_sell\<close>, \<open>revenue_sell\<close>, \<open>sell_fills\<close> here.
\<close>

fun fill_loop :: "rounding \<Rightarrow> level list \<Rightarrow> rat \<Rightarrow> rat \<Rightarrow> fill list \<Rightarrow> rat \<times> rat \<times> fill list" where
  "fill_loop fl [] remaining tot fills = (remaining, tot, fills)"
| "fill_loop fl (lv # lvs) remaining tot fills =
     (if remaining \<le> 0 then (remaining, tot, fills)
      else let size_take = min (size_lvl lv) remaining;
               cost = fl (size_take * price lv)
           in fill_loop fl lvs (fl (remaining - size_take)) (fl (tot + cost))
                (fills @ [(exchange lv, size_take, price lv, cost)]))"

text \<open>
  \<open>asks.sort(key=price)\<close> is a stable ascending sort; \<open>bids.sort(key=price, reverse=True)\<close>
  is descending and keeps the original order of levels of equal price.
\<close>

definition sorted_asks :: "book \<Rightarrow> level list" where
  "sorted_asks b = sort_key price (asks b)"

definition sorted_bids :: "book \<Rightarrow> level list" where
  "sorted_bids b = rev (sort_key price (rev (bids b)))"

text \<open>
  The method prints and returns nothing; its model returns the values of its local
  variables when the loops are done, and \<open>None\<close> when there is no internal book yet.
\<close>

record execution =
  remaining_buy :: rat
  cost_buy :: rat
  buy_fills :: "fill list"
  remaining_sell :: rat
  revenue_sell :: rat
  sell_fills :: "fill list"

definition calculate_execution_prices :: "rounding \<Rightarrow> 'r order_book \<Rightarrow> rat \<Rightarrow> execution option" where
  "calculate_execution_prices fl ob quantity_btc =
     (case internal_order_book ob of
        None \<Rightarrow> None
      | Some b \<Rightarrow>
          (case fill_loop fl (sorted_asks b) quantity_btc 0 [] of
             (rb, cb, bf) \<Rightarrow>
               (case fill_loop fl (sorted_bids b) quantity_btc 0 [] of
                  (rs, cs, sf) \<Rightarrow>
                    Some \<lparr>remaining_buy = rb, cost_buy = cb, buy_fills = bf,
                          remaining_sell = rs, revenue_sell = cs, sell_fills = sf\<rparr>)))"

subsection \<open>Reading a book and an execution\<close>

text \<open>
  The levels of one venue in a side of the internal book, as \<open>print_order_books\<close> selects
  them: \<open>[b for b in bids if b["exchange"] == "coinbase"]\<close>.
\<close>

definition venue_levels :: "string \<Rightarrow> level list \<Rightarrow> level list" where
  "venue_levels ex lvls = filter (\<lambda>l. exchange l = ex) lvls"

text \<open>
  The specification's \<open>filledQty\<close>. The method keeps no such variable: it is the sum of the
  \<open>size_take\<close> of the fills.
\<close>

definition filled_qty :: "fill list \<Rightarrow> rat" where
  "filled_qty fills = sum_list (map (\<lambda>(ex, size_take, p, c). size_take) fills)"



text \<open>
  No operation of the loop rounds: on the levels the loop walks, starting with \<open>remaining\<close>
  and \<open>tot\<close>, each product \<open>size_take * price\<close>, each difference
  \<open>remaining - size_take\<close> and each sum \<open>tot + cost\<close> is left as it is by \<open>fl\<close>
  (it is itself a float).
\<close>

fun no_rounding :: "rounding \<Rightarrow> level list \<Rightarrow> rat \<Rightarrow> rat \<Rightarrow> bool" where
  "no_rounding fl [] remaining tot = True"
| "no_rounding fl (lv # lvs) remaining tot =
     (if remaining \<le> 0 then True
      else let size_take = min (size_lvl lv) remaining;
               cost = size_take * price lv
           in fl cost = cost
              \<and> fl (remaining - size_take) = remaining - size_take
              \<and> fl (tot + cost) = tot + cost
              \<and> no_rounding fl lvs (remaining - size_take) (tot + cost))"

text \<open>A fill belongs to a level and takes no more than the level holds.\<close>

definition fill_within :: "fill \<Rightarrow> level \<Rightarrow> bool" where
  "fill_within f lv =
     (case f of (ex, size_take, p, c) \<Rightarrow>
        ex = exchange lv \<and> p = price lv \<and> size_take \<le> size_lvl lv)"

text \<open>The specification's empty book: empty bid and ask sequences.\<close>

definition empty_book :: "'l payload" where
  "empty_book = [(''bids'', []), (''asks'', [])]"


subsection \<open>Example data\<close>

definition coinbase_lv :: "rat \<Rightarrow> rat \<Rightarrow> level" where
  "coinbase_lv p s = \<lparr>price = p, size_lvl = s, exchange = ''coinbase''\<rparr>"

definition gemini_lv :: "rat \<Rightarrow> rat \<Rightarrow> level" where
  "gemini_lv p s = \<lparr>price = p, size_lvl = s, exchange = ''gemini''\<rparr>"

text \<open>
  The scenario of the specification: Coinbase asks \<open>[[100, 1], [101, 2]]\<close>, Gemini asks
  \<open>[{price: 100.5, amount: 1.5}]\<close>, depth 2; bids are added here, three of them on Coinbase
  so that depth 2 cuts one. Coinbase levels carry a third field (the number of orders), as
  the venue sends it. The scalars are numbers, and \<open>float\<close> is \<open>Inr\<close> on them.
\<close>

definition scenario_coinbase :: "rat coinbase_level payload" where
  "scenario_coinbase =
     [(''bids'', [[99, 1, 4], [98, 2, 1], [97, 5, 2]]), (''asks'', [[100, 1, 1], [101, 2, 3]])]"

definition scenario_gemini :: "rat gemini_level payload" where
  "scenario_gemini =
     [(''bids'', [[(''price'', 197 / 2), (''amount'', 1)]]),
      (''asks'', [[(''price'', 201 / 2), (''amount'', 3 / 2)]])]"

definition scenario_fetched :: "rat order_book" where
  "scenario_fetched =
     \<lparr>coinbase_order_book = Some scenario_coinbase, gemini_order_book = Some scenario_gemini,
      internal_order_book = None, depth = Some 2,
      coinbase_limiter = \<lparr>min_interval = 2, last_called = 10\<rparr>,
      gemini_limiter = \<lparr>min_interval = 2, last_called = 10\<rparr>\<rparr>"

definition scenario_book :: book where
  "scenario_book =
     \<lparr>bids = [coinbase_lv 99 1, coinbase_lv 98 2, gemini_lv (197 / 2) 1],
      asks = [coinbase_lv 100 1, coinbase_lv 101 2, gemini_lv (201 / 2) (3 / 2)]\<rparr>"

definition scenario_ob :: "rat order_book" where
  "scenario_ob = scenario_fetched\<lparr>internal_order_book := Some scenario_book\<rparr>"

text \<open>
  The same object with one venue never fetched, and the book of the other venue's levels:
  its first two bids and asks.
\<close>

definition coinbase_only :: "rat order_book" where
  "coinbase_only = scenario_fetched\<lparr>gemini_order_book := None\<rparr>"

definition coinbase_only_book :: book where
  "coinbase_only_book =
     \<lparr>bids = [coinbase_lv 99 1, coinbase_lv 98 2], asks = [coinbase_lv 100 1, coinbase_lv 101 2]\<rparr>"

definition gemini_only :: "rat order_book" where
  "gemini_only = scenario_fetched\<lparr>coinbase_order_book := None\<rparr>"

definition gemini_only_book :: book where
  "gemini_only_book =
     \<lparr>bids = [gemini_lv (197 / 2) 1], asks = [gemini_lv (201 / 2) (3 / 2)]\<rparr>"

text \<open>The book of the same snapshots with no level cut.\<close>

definition full_book :: book where
  "full_book =
     \<lparr>bids = [coinbase_lv 99 1, coinbase_lv 98 2, coinbase_lv 97 5, gemini_lv (197 / 2) 1],
      asks = [coinbase_lv 100 1, coinbase_lv 101 2, gemini_lv (201 / 2) (3 / 2)]\<rparr>"





section \<open>Properties\<close>

subsection \<open>Floats\<close>

text \<open>
  Three facts about \<open>binary64\<close>: it never turns a non-positive number into a positive
  one; an integer of at most 53 binary digits times a power of two is a float, when it is
  in range; and the difference of two floats \<open>t \<le> x \<le> 2 t\<close> is a float (Sterbenz'
  lemma), so that this subtraction does not round.
\<close>

lemma infinity_threshold_numeral [code]:
  "infinity_threshold =
     179769313486231590772930519078902473361797697894230657273430081157732675805500963132708477322407536021120113879871393357658789768814416622492847430639474124377767893424865485276302219601246094119453082952085005768838150682342462881473913110540827237163350510684586298239947245938479716304835356329624224137216"
  by (simp add: infinity_threshold_def)

lemma bit_length_bounds:
  "0 < n \<Longrightarrow> 0 < bit_length n \<and> 2 ^ nat (bit_length n - 1) \<le> n \<and> n < 2 ^ nat (bit_length n)"
proof (induction n rule: bit_length.induct)
  case (1 n)
  show ?case
  proof (cases "n div 2 \<le> 0")
    case True
    with "1.prems" have "n = 1" by auto
    then show ?thesis by (simp add: bit_length.simps [of 1] bit_length.simps [of 0])
  next
    case False
    then have pos: "0 < n div 2" by simp
    from "1.IH" "1.prems" pos
    have ih: "0 < bit_length (n div 2)"
      "2 ^ nat (bit_length (n div 2) - 1) \<le> n div 2"
      "n div 2 < 2 ^ nat (bit_length (n div 2))"
      by simp_all
    let ?k = "bit_length (n div 2)"
    have bl: "bit_length n = 1 + ?k" using "1.prems" by (subst bit_length.simps) simp
    have e1: "nat (bit_length n - 1) = Suc (nat (?k - 1))" using ih(1) bl by simp
    have e2: "nat (bit_length n) = Suc (nat ?k)" using ih(1) bl by simp
    have "2 * 2 ^ nat (?k - 1) \<le> n" using ih(2) by linarith
    moreover have "n < 2 * 2 ^ nat ?k" using ih(3) by linarith
    ultimately show ?thesis using ih(1) bl e1 e2 by simp
  qed
qed

lemma bit_length_powi:
  assumes "0 < n"
  shows "2 powi (bit_length n - 1) \<le> (of_int n :: rat)" and "(of_int n :: rat) < 2 powi bit_length n"
proof -
  from bit_length_bounds [OF assms]
  have b: "0 < bit_length n" "2 ^ nat (bit_length n - 1) \<le> n" "n < 2 ^ nat (bit_length n)"
    by simp_all
  have "(of_int (2 ^ nat (bit_length n - 1)) :: rat) \<le> of_int n"
    using b(2) by (simp only: of_int_le_iff)
  then show "2 powi (bit_length n - 1) \<le> (of_int n :: rat)"
    using b(1) by (simp add: power_int_nonneg_exp)
  have "(of_int n :: rat) < of_int (2 ^ nat (bit_length n))"
    using b(3) by (simp only: of_int_less_iff)
  then show "(of_int n :: rat) < 2 powi bit_length n"
    using b(1) by (simp add: power_int_nonneg_exp)
qed

lemma powi2_pos: "0 < (2::rat) powi k"
  by simp

lemma exponent_bounds:
  assumes "0 < x"
  shows "2 powi exponent x \<le> x" and "x < 2 powi (exponent x + 1)"
proof -
  obtain a b where q: "quotient_of x = (a, b)" by (cases "quotient_of x")
  then have b: "0 < b" and x: "x = of_int a / of_int b"
    by (auto dest: quotient_of_denom_pos quotient_of_div)
  from assms x b have a: "0 < a" by (simp add: zero_less_divide_iff)
  let ?n = "bit_length a - bit_length b"
  have bR: "0 < (of_int b :: rat)" using b by simp
  have up: "x < 2 powi (?n + 1)"
  proof -
    have "of_int a < (2::rat) powi bit_length a" by (rule bit_length_powi [OF a])
    moreover have "(2::rat) powi (bit_length b - 1) \<le> of_int b" by (rule bit_length_powi [OF b])
    ultimately have "of_int a * 2 powi (bit_length b - 1) < (2::rat) powi bit_length a * of_int b"
      by (intro mult_less_le_imp_less) (use a in simp_all)
    then have "x * 2 powi (bit_length b - 1) < (2::rat) powi bit_length a"
      using bR by (simp add: x field_simps)
    then have "x < 2 powi bit_length a / 2 powi (bit_length b - 1)"
      by (simp add: pos_less_divide_eq)
    also have "\<dots> = 2 powi (?n + 1)"
      by (simp add: power_int_diff [symmetric] algebra_simps)
    finally show ?thesis .
  qed
  have lo: "2 powi (?n - 1) < x"
  proof -
    have "(2::rat) powi (bit_length a - 1) \<le> of_int a" by (rule bit_length_powi [OF a])
    moreover have "of_int b < (2::rat) powi bit_length b" by (rule bit_length_powi [OF b])
    ultimately have "(2::rat) powi (bit_length a - 1) * of_int b < of_int a * 2 powi bit_length b"
      by (intro mult_le_less_imp_less) (use a b in simp_all)
    then have "(2::rat) powi (bit_length a - 1) < x * 2 powi bit_length b"
      using bR by (simp add: x field_simps)
    then have "2 powi (bit_length a - 1) / 2 powi bit_length b < x"
      by (simp add: pos_divide_less_eq)
    moreover have "(2::rat) powi (bit_length a - 1) / 2 powi bit_length b = 2 powi (?n - 1)"
      by (simp add: power_int_diff [symmetric] algebra_simps)
    ultimately show ?thesis by simp
  qed
  have e: "exponent x = (if 2 powi ?n \<le> x then ?n else ?n - 1)"
    by (simp add: exponent_def q Let_def)
  show "2 powi exponent x \<le> x" using lo by (simp add: e)
  show "x < 2 powi (exponent x + 1)" using up by (auto simp: e)
qed

lemma powi2_less_cancel: "(2::rat) powi a < 2 powi b \<Longrightarrow> a < b"
proof (rule ccontr)
  assume lt: "(2::rat) powi a < 2 powi b" and "\<not> a < b"
  then have "b \<le> a" by simp
  then have "(2::rat) powi b \<le> 2 powi a" by (intro power_int_increasing) simp_all
  with lt show False by simp
qed

lemma exponent_unique:
  assumes "0 < x" "2 powi e \<le> x" "x < 2 powi (e + 1)"
  shows "exponent x = e"
proof -
  from exponent_bounds [OF assms(1)]
  have b: "2 powi exponent x \<le> x" "x < 2 powi (exponent x + 1)" by simp_all
  have "(2::rat) powi exponent x < 2 powi (e + 1)" using b(1) assms(3) by simp
  then have "exponent x < e + 1" by (rule powi2_less_cancel)
  moreover have "(2::rat) powi e < 2 powi (exponent x + 1)" using b(2) assms(2) by simp
  then have "e < exponent x + 1" by (rule powi2_less_cancel)
  ultimately show ?thesis by simp
qed

lemma exponent_mono:
  assumes "0 < t" "t \<le> x"
  shows "exponent t \<le> exponent x"
proof -
  have x: "0 < x" using assms by simp
  have "(2::rat) powi exponent t \<le> t" by (rule exponent_bounds [OF assms(1)])
  also have "t \<le> x" by fact
  also have "x < 2 powi (exponent x + 1)" by (rule exponent_bounds [OF x])
  finally have "exponent t < exponent x + 1" by (rule powi2_less_cancel)
  then show ?thesis by simp
qed

lemma round_half_even_of_int: "round_half_even (of_int k) = k"
  by (simp add: round_half_even_def)

lemma round_half_even_nonpos: "y \<le> 0 \<Longrightarrow> round_half_even y \<le> 0"
proof -
  assume y: "y \<le> 0"
  then have f: "\<lfloor>y\<rfloor> \<le> 0" by (simp add: floor_le_zero)
  show ?thesis
  proof (cases "y = of_int \<lfloor>y\<rfloor>")
    case True
    then have "round_half_even y = \<lfloor>y\<rfloor>"
      by (metis round_half_even_of_int)
    with f show ?thesis by simp
  next
    case False
    then have "of_int \<lfloor>y\<rfloor> < y" by (metis of_int_floor_le order_less_le)
    with y have "(of_int \<lfloor>y\<rfloor> :: rat) < 0" by linarith
    then have "\<lfloor>y\<rfloor> < 0" by (simp only: of_int_less_0_iff)
    then show ?thesis by (auto simp: round_half_even_def Let_def)
  qed
qed

lemma binary64_unfold:
  "binary64 x =
     (if x = 0 then 0
      else if infinity_threshold
                \<le> \<bar>2 powi (max (exponent \<bar>x\<bar>) (- 1022) - 52)
                      * of_int (round_half_even (x / 2 powi (max (exponent \<bar>x\<bar>) (- 1022) - 52)))\<bar>
           then 2 * x
           else 2 powi (max (exponent \<bar>x\<bar>) (- 1022) - 52)
                  * of_int (round_half_even (x / 2 powi (max (exponent \<bar>x\<bar>) (- 1022) - 52))))"
  by (simp only: binary64_def Let_def)

lemma binary64_nonpos: "z \<le> 0 \<Longrightarrow> binary64 z \<le> 0"
proof -
  assume z: "z \<le> 0"
  define u :: rat where "u = 2 powi (max (exponent \<bar>z\<bar>) (- 1022) - 52)"
  define k where "k = round_half_even (z / u)"
  have u: "0 < u" by (simp add: u_def)
  have "z / u \<le> 0" using z u by (simp add: divide_nonpos_pos)
  then have "k \<le> 0" unfolding k_def by (rule round_half_even_nonpos)
  then have "(of_int k :: rat) \<le> 0" by simp
  then have r: "u * of_int k \<le> 0"
    using u by (simp add: mult_nonneg_nonpos)
  have "binary64 z = (if z = 0 then 0
      else if infinity_threshold \<le> \<bar>u * of_int k\<bar> then 2 * z else u * of_int k)"
    unfolding u_def k_def by (rule binary64_unfold)
  with z r show ?thesis by simp
qed

lemma binary64_fixes:
  assumes x: "x = of_int k * 2 powi j" and k: "\<bar>k\<bar> < 2 ^ 53" and j: "- 1074 \<le> j"
    and r: "\<bar>x\<bar> < infinity_threshold"
  shows "binary64 x = x"
proof (cases "x = 0")
  case True
  then show ?thesis by (simp add: binary64_def)
next
  case False
  define e where "e = max (exponent \<bar>x\<bar>) (- 1022)"
  have ax: "0 < \<bar>x\<bar>" using False by simp
  have "\<bar>x\<bar> = of_int \<bar>k\<bar> * 2 powi j" by (simp add: x abs_mult)
  also have "\<dots> < of_int (2 ^ 53) * 2 powi j"
    using k by (intro mult_strict_right_mono) (simp_all only: of_int_less_iff powi2_pos)
  also have "\<dots> = 2 powi (53 + j)" by (simp add: power_int_add)
  finally have "\<bar>x\<bar> < 2 powi (53 + j)" .
  with exponent_bounds(1) [OF ax] have "(2::rat) powi exponent \<bar>x\<bar> < 2 powi (53 + j)" by simp
  then have "exponent \<bar>x\<bar> < 53 + j" by (rule powi2_less_cancel)
  with j have d: "0 \<le> j - (e - 52)" by (simp add: e_def)
  have "x / 2 powi (e - 52) = of_int k * (2 powi j / 2 powi (e - 52))" by (simp add: x)
  also have "2 powi j / (2::rat) powi (e - 52) = 2 powi (j - (e - 52))"
    by (simp add: power_int_diff)
  also have "\<dots> = of_int (2 ^ nat (j - (e - 52)))"
    using d by (simp add: power_int_nonneg_exp)
  finally have q: "x / 2 powi (e - 52) = of_int (k * 2 ^ nat (j - (e - 52)))" by simp
  have "2 powi (e - 52) * of_int (round_half_even (x / 2 powi (e - 52)))
          = 2 powi (e - 52) * (x / 2 powi (e - 52))"
    by (simp only: q round_half_even_of_int)
  also have "\<dots> = x" by simp
  finally have v: "2 powi (e - 52) * of_int (round_half_even (x / 2 powi (e - 52))) = x" .
  have "binary64 x = (if x = 0 then 0
      else if infinity_threshold
                \<le> \<bar>2 powi (e - 52) * of_int (round_half_even (x / 2 powi (e - 52)))\<bar>
           then 2 * x
           else 2 powi (e - 52) * of_int (round_half_even (x / 2 powi (e - 52))))"
    unfolding e_def by (rule binary64_unfold)
  then have "binary64 x = (if x = 0 then 0
      else if infinity_threshold \<le> \<bar>x\<bar> then 2 * x else x)"
    by (simp only: v)
  with False r show ?thesis by simp
qed

lemma binary64_significand:
  assumes fx: "binary64 x = x" and pos: "0 < x"
  obtains k where "x = of_int k * 2 powi (max (exponent x) (- 1022) - 52)" "0 < k" "k < 2 ^ 53"
    "x < infinity_threshold"
proof -
  define e where "e = max (exponent x) (- 1022)"
  define u :: rat where "u = 2 powi (e - 52)"
  define k where "k = round_half_even (x / u)"
  have u: "0 < u" by (simp add: u_def)
  have ax: "\<bar>x\<bar> = x" using pos by simp
  have "binary64 x = (if x = 0 then 0
      else if infinity_threshold
                \<le> \<bar>2 powi (max (exponent \<bar>x\<bar>) (- 1022) - 52)
                      * of_int (round_half_even (x / 2 powi (max (exponent \<bar>x\<bar>) (- 1022) - 52)))\<bar>
           then 2 * x
           else 2 powi (max (exponent \<bar>x\<bar>) (- 1022) - 52)
                  * of_int (round_half_even (x / 2 powi (max (exponent \<bar>x\<bar>) (- 1022) - 52))))"
    by (rule binary64_unfold)
  then have "binary64 x = (if x = 0 then 0
      else if infinity_threshold \<le> \<bar>u * of_int k\<bar> then 2 * x else u * of_int k)"
    by (simp only: ax u_def k_def e_def)
  with pos have b: "binary64 x
      = (if infinity_threshold \<le> \<bar>u * of_int k\<bar> then 2 * x else u * of_int k)"
    by simp
  have n: "\<not> infinity_threshold \<le> \<bar>u * of_int k\<bar>"
  proof
    assume "infinity_threshold \<le> \<bar>u * of_int k\<bar>"
    with b fx have "2 * x = x" by simp
    with pos show False by simp
  qed
  with b fx have eq: "x = u * of_int k" by simp
  then have xk: "x = of_int k * 2 powi (max (exponent x) (- 1022) - 52)"
    by (simp add: mult.commute u_def e_def)
  have "0 < u * of_int k" using eq pos by simp
  then have "0 < (of_int k :: rat)" using u by (simp add: zero_less_mult_iff)
  then have k0: "0 < k" by (simp only: of_int_0_less_iff)
  have "(2::rat) powi (exponent x + 1) \<le> 2 powi (e + 1)"
    by (intro power_int_increasing) (simp_all add: e_def)
  moreover have "e + 1 = (e - 52) + 53" by simp
  then have "(2::rat) powi (e + 1) = 2 powi ((e - 52) + 53)" by (simp only:)
  moreover have "(2::rat) powi ((e - 52) + 53) = u * 2 powi 53"
    unfolding u_def by (rule power_int_add) simp
  ultimately have p: "(2::rat) powi (exponent x + 1) \<le> u * 2 powi 53" by simp
  have "x < 2 powi (exponent x + 1)" by (rule exponent_bounds(2) [OF pos])
  with p have "x < u * 2 powi 53" by simp
  then have "u * of_int k < u * 2 powi 53" by (simp only: eq [symmetric])
  then have "(of_int k :: rat) < 2 powi 53" using u by (simp only: mult_less_cancel_left_pos)
  also have "(2::rat) powi 53 = of_int (2 ^ 53)" by simp
  finally have k53: "k < 2 ^ 53" by (simp only: of_int_less_iff)
  have "\<bar>u * of_int k\<bar> = x" using eq pos by simp
  with n have "x < infinity_threshold" by simp
  with xk k0 k53 show ?thesis by (rule that)
qed

lemma binary64_sterbenz:
  assumes fx: "binary64 x = x" and ft: "binary64 t = t" and tx: "t \<le> x" and x2: "x \<le> 2 * t"
  shows "binary64 (x - t) = x - t"
proof (cases "t = 0")
  case True
  with tx x2 have "x = 0" by simp
  with True show ?thesis by (simp add: binary64_def)
next
  case False
  with tx x2 have t: "0 < t" and x: "0 < x" by simp_all
  define et where "et = max (exponent t) (- 1022)"
  define ex where "ex = max (exponent x) (- 1022)"
  from binary64_significand [OF ft t] obtain kt where
    kt: "t = of_int kt * 2 powi (et - 52)" "0 < kt" "kt < 2 ^ 53" "t < infinity_threshold"
    unfolding et_def by blast
  from binary64_significand [OF fx x] obtain kx where
    kx: "x = of_int kx * 2 powi (ex - 52)" "0 < kx" "kx < 2 ^ 53"
    unfolding ex_def by blast
  let ?ut = "(2::rat) powi (et - 52)"
  have "exponent t \<le> exponent x" by (rule exponent_mono [OF t tx])
  then have le: "et \<le> ex" by (simp add: et_def ex_def)
  let ?d = "nat (ex - et)"
  have "(2::rat) powi (ex - 52) = 2 powi (int ?d + (et - 52))"
    using le by simp
  also have "\<dots> = 2 ^ ?d * ?ut"
    by (simp only: power_int_add [of "2::rat", simplified] power_int_of_nat)
  finally have ux: "(2::rat) powi (ex - 52) = 2 ^ ?d * ?ut" .
  define K where "K = kx * 2 ^ ?d - kt"
  have ut: "0 < ?ut" by simp
  have "x - t = of_int kx * (2 ^ ?d * ?ut) - of_int kt * ?ut"
    by (subst kx(1), subst kt(1)) (simp only: ux)
  also have "\<dots> = of_int K * ?ut" by (simp add: K_def algebra_simps)
  finally have diff: "x - t = of_int K * ?ut" .
  have "0 \<le> (of_int K :: rat)"
  proof (rule ccontr)
    assume "\<not> 0 \<le> (of_int K :: rat)"
    then have "(of_int K :: rat) < 0" by simp
    then have "of_int K * ?ut < 0" using ut by (rule mult_neg_pos)
    then have "x - t < 0" by (simp only: diff)
    with tx show False by simp
  qed
  then have K0: "0 \<le> K" by (simp only: of_int_0_le_iff)
  have xt: "x - t \<le> t" using x2 by simp
  then have "of_int K * ?ut \<le> t" by (simp only: diff)
  also have "t = of_int kt * ?ut" by (rule kt(1))
  finally have "of_int K * ?ut \<le> of_int kt * ?ut" .
  then have "(of_int K :: rat) \<le> of_int kt" using ut by (rule mult_right_le_imp_le)
  then have "K \<le> kt" by (simp only: of_int_le_iff)
  with kt(3) K0 have K53: "\<bar>K\<bar> < 2 ^ 53" by simp
  have j: "- 1074 \<le> et - 52" by (simp add: et_def)
  have "\<bar>x - t\<bar> < infinity_threshold" using xt tx kt(4) by simp
  with diff K53 j show ?thesis by (rule binary64_fixes)
qed

subsection \<open>The rate limiter\<close>

lemma allowed_at_Cons:
  "allowed_at fl rl (now # nows) =
     (if min_interval rl \<le> fl (now - last_called rl)
      then now # allowed_at fl (rl\<lparr>last_called := now\<rparr>) nows
      else allowed_at fl rl nows)"
  by (simp add: allowed_at_def allow_def)

lemma allowed_at_gaps:
  assumes m: "0 < m"
    and sign: "\<forall>z. z \<le> 0 \<longrightarrow> fl z \<le> 0"
    and sterbenz: "\<forall>x t. fl x = x \<longrightarrow> fl t = t \<longrightarrow> t \<le> x \<longrightarrow> x \<le> 2 * t \<longrightarrow> fl (x - t) = x - t"
    and repr: "\<forall>t\<in>set nows. fl t = t"
    and inv: "min_interval rl = m"
      "last_called rl = 0 \<or> (m \<le> last_called rl \<and> fl (last_called rl) = last_called rl)"
  shows "sorted_wrt (\<lambda>s t. m \<le> t - s) (allowed_at fl rl nows)
         \<and> (\<forall>a\<in>set (allowed_at fl rl nows). m \<le> a - last_called rl)"
  using repr inv
proof (induction nows arbitrary: rl)
  case Nil
  then show ?case by (simp add: allowed_at_def)
next
  case (Cons now nows)
  have rn: "fl now = now" and rest: "\<forall>t\<in>set nows. fl t = t"
    using Cons.prems(1) by simp_all
  show ?case
  proof (cases "min_interval rl \<le> fl (now - last_called rl)")
    case False
    then show ?thesis
      using Cons.IH [OF rest Cons.prems(2,3)] by (simp add: allowed_at_Cons)
  next
    case True
    then have ok: "m \<le> fl (now - last_called rl)" using Cons.prems(2) by simp
    have gap: "m \<le> now - last_called rl"
    proof (cases "last_called rl = 0")
      case True
      with ok rn show ?thesis by simp
    next
      case False
      with Cons.prems(3) have t: "m \<le> last_called rl" "fl (last_called rl) = last_called rl"
        by simp_all
      have "\<not> now - last_called rl \<le> 0"
      proof
        assume "now - last_called rl \<le> 0"
        with sign have "fl (now - last_called rl) \<le> 0" by blast
        with ok m show False by simp
      qed
      then have lt: "last_called rl \<le> now" by simp
      show ?thesis
      proof (cases "now \<le> 2 * last_called rl")
        case True
        with sterbenz rn t(2) lt have "fl (now - last_called rl) = now - last_called rl"
          by blast
        with ok show ?thesis by simp
      next
        case False
        with t(1) show ?thesis by simp
      qed
    qed
    let ?rl = "rl\<lparr>last_called := now\<rparr>"
    have lastnn: "0 \<le> last_called rl" using Cons.prems(3) m by auto
    have inv': "min_interval ?rl = m"
      "last_called ?rl = 0 \<or> (m \<le> last_called ?rl \<and> fl (last_called ?rl) = last_called ?rl)"
      using Cons.prems(2) gap lastnn rn by simp_all
    from Cons.IH [OF rest inv']
    have ih: "sorted_wrt (\<lambda>s t. m \<le> t - s) (allowed_at fl ?rl nows)"
      "\<forall>a\<in>set (allowed_at fl ?rl nows). m \<le> a - now"
      by simp_all
    have "\<forall>a\<in>set (allowed_at fl ?rl nows). m \<le> a - last_called rl"
    proof
      fix a assume "a \<in> set (allowed_at fl ?rl nows)"
      with ih(2) have "m \<le> a - now" by blast
      with gap m show "m \<le> a - last_called rl" by simp
    qed
    with ih gap True show ?thesis by (simp add: allowed_at_Cons)
  qed
qed

lemma allow_True:
  "fst (allow fl rl now) \<Longrightarrow> allow fl rl now = (True, rl\<lparr>last_called := now\<rparr>)"
  by (auto simp: allow_def split: if_splits)

text \<open>
  Claim C2. \<open>allow\<close> returns \<open>True\<close> exactly when the difference \<open>now - last_called\<close>
  it computes is at least \<open>min_interval\<close>; it then records \<open>now\<close> as \<open>last_called\<close>, and
  otherwise leaves the limiter as it is. Consequently, for a limiter created with a positive
  \<open>min_interval\<close> and any sequence of calls (the clock need not be monotone), any two calls
  that returned \<open>True\<close> are at least \<open>min_interval\<close> apart in true, unrounded time. The
  rounding \<open>fl\<close> of the subtraction is any rounding that never turns a non-positive number
  into a positive one and is exact on the difference of two floats \<open>t \<le> x \<le> 2 t\<close>, the
  clock readings being floats. Both \<open>binary64\<close> and \<open>exact\<close> are such roundings.
\<close>

theorem allow_min_interval:
  assumes "0 < m"
    and "\<forall>z. z \<le> 0 \<longrightarrow> fl z \<le> 0"
    and "\<forall>x t. fl x = x \<longrightarrow> fl t = t \<longrightarrow> t \<le> x \<longrightarrow> x \<le> 2 * t \<longrightarrow> fl (x - t) = x - t"
    and "\<forall>t\<in>set nows. fl t = t"
  shows "(\<forall>rl now. fst (allow fl rl now) = (min_interval rl \<le> fl (now - last_called rl))
            \<and> snd (allow fl rl now) =
                 (if fst (allow fl rl now) then rl\<lparr>last_called := now\<rparr> else rl))
         \<and> sorted_wrt (\<lambda>s t. m \<le> t - s) (allowed_at fl (RateLimiter m) nows)"
proof -
  have "min_interval (RateLimiter m) = m"
    "last_called (RateLimiter m) = 0
       \<or> (m \<le> last_called (RateLimiter m)
            \<and> fl (last_called (RateLimiter m)) = last_called (RateLimiter m))"
    by (simp_all add: RateLimiter_def)
  from allowed_at_gaps [OF assms this]
  have "sorted_wrt (\<lambda>s t. m \<le> t - s) (allowed_at fl (RateLimiter m) nows)" by simp
  then show ?thesis by (simp add: allow_def)
qed

theorem allow_min_interval_witness:
  "(0::rat) < 2
   \<and> list_all (\<lambda>t. binary64 t = t)
         [1730707200, 3461414401 / 2, 1730707202, 6922828815 / 4, 3461414409 / 2]
   \<and> allowed_at binary64 (RateLimiter 2)
         [1730707200, 3461414401 / 2, 1730707202, 6922828815 / 4, 3461414409 / 2]
       = [1730707200, 1730707202, 3461414409 / 2]
   \<and> sorted_wrt (\<lambda>s t. 2 \<le> t - s)
         (allowed_at binary64 (RateLimiter 2)
            [1730707200, 3461414401 / 2, 1730707202, 6922828815 / 4, 3461414409 / 2])"
proof -
  have h1: "(0::rat) < 2" by simp
  have h2: "\<forall>z. z \<le> 0 \<longrightarrow> binary64 z \<le> 0" by (simp add: binary64_nonpos)
  have h3: "\<forall>x t. binary64 x = x \<longrightarrow> binary64 t = t \<longrightarrow> t \<le> x \<longrightarrow> x \<le> 2 * t
              \<longrightarrow> binary64 (x - t) = x - t"
    by (simp add: binary64_sterbenz)
  have l: "list_all (\<lambda>t. binary64 t = t)
         [1730707200, 3461414401 / 2, 1730707202, 6922828815 / 4, 3461414409 / 2]"
    by code_simp
  then have h4: "\<forall>t\<in>set [1730707200, 3461414401 / 2, 1730707202, 6922828815 / 4, 3461414409 / 2].
           binary64 t = t"
    by (simp only: list_all_iff)
  have e: "allowed_at binary64 (RateLimiter 2)
         [1730707200, 3461414401 / 2, 1730707202, 6922828815 / 4, 3461414409 / 2]
       = [1730707200, 1730707202, 3461414409 / 2]"
    by code_simp
  from allow_min_interval [OF h1 h2 h3 h4] have
    "sorted_wrt (\<lambda>s t. 2 \<le> t - s)
         (allowed_at binary64 (RateLimiter 2)
            [1730707200, 3461414401 / 2, 1730707202, 6922828815 / 4, 3461414409 / 2])"
    by (rule conjunct2)
  with h1 l e show ?thesis by (intro conjI)
qed

subsection \<open>Fetching\<close>

lemma fetch_coinbase_denied:
  "\<not> fst (allow fl (coinbase_limiter ob) now) \<Longrightarrow> fetch_coinbase fl ob now r = (None, [], ob)"
  by (cases "allow fl (coinbase_limiter ob) now") (auto simp: fetch_coinbase_def)

lemma fetch_gemini_denied:
  "\<not> fst (allow fl (gemini_limiter ob) now) \<Longrightarrow> fetch_gemini fl ob now r = (None, [], ob)"
  by (cases "allow fl (gemini_limiter ob) now") (auto simp: fetch_gemini_def)

text \<open>
  Claim C8. When the venue's rate limiter denies the call, \<open>fetch_coinbase\<close> and
  \<open>fetch_gemini\<close> return at once: no exception, no URL requested, and the whole object (the
  stored snapshots and the limiters with it) exactly as it was.
\<close>

theorem denied_fetch_is_noop:
  "(\<not> fst (allow fl (coinbase_limiter ob) now) \<longrightarrow> fetch_coinbase fl ob now r = (None, [], ob))
   \<and> (\<not> fst (allow fl (gemini_limiter ob) now) \<longrightarrow> fetch_gemini fl ob now r' = (None, [], ob))"
  by (simp add: fetch_coinbase_denied fetch_gemini_denied)

theorem denied_fetch_is_noop_witness:
  "\<not> fst (allow binary64 (coinbase_limiter scenario_ob) 11)
   \<and> fetch_coinbase binary64 scenario_ob 11 (Json []) = (None, [], scenario_ob)
   \<and> \<not> fst (allow binary64 (gemini_limiter scenario_ob) 11)
   \<and> fetch_gemini binary64 scenario_ob 11 (Json []) = (None, [], scenario_ob)"
proof -
  have h1: "\<not> fst (allow binary64 (coinbase_limiter scenario_ob) 11)" by code_simp
  have h2: "\<not> fst (allow binary64 (gemini_limiter scenario_ob) 11)" by code_simp
  from denied_fetch_is_noop [of binary64 scenario_ob 11 "Json []" "Json []"] h1 h2 show ?thesis by blast
qed

text \<open>
  Claim C3, as the code has it. When the limiter allows the call and the request, the
  status check or \<open>response.json()\<close> fails, the stored snapshot of the venue is left
  unchanged, but the exception is not caught: it leaves the fetch method, after the limiter
  has recorded the call, and it ends the worker's loop, whose later iterations never run.
\<close>

theorem fetch_failure_propagates:
  "(fst (allow fl (coinbase_limiter ob) now) \<and> http_get r = Inl e \<longrightarrow>
      fetch_coinbase fl ob now r =
        (Some e, [coinbase_url],
         ob\<lparr>coinbase_limiter := (coinbase_limiter ob)\<lparr>last_called := now\<rparr>\<rparr>)
      \<and> coinbase_order_book (snd (snd (fetch_coinbase fl ob now r))) = coinbase_order_book ob
      \<and> coinbase_worker fl ob ((now, r) # rest) =
          Died e (ob\<lparr>coinbase_limiter := (coinbase_limiter ob)\<lparr>last_called := now\<rparr>\<rparr>))
   \<and> (fst (allow fl (gemini_limiter ob) now) \<and> http_get r' = Inl e' \<longrightarrow>
      fetch_gemini fl ob now r' =
        (Some e', [gemini_url],
         ob\<lparr>gemini_limiter := (gemini_limiter ob)\<lparr>last_called := now\<rparr>\<rparr>)
      \<and> gemini_order_book (snd (snd (fetch_gemini fl ob now r'))) = gemini_order_book ob
      \<and> gemini_worker fl ob ((now, r') # rest') =
          Died e' (ob\<lparr>gemini_limiter := (gemini_limiter ob)\<lparr>last_called := now\<rparr>\<rparr>))"
proof -
  have c: "fetch_coinbase fl ob now r =
        (Some e, [coinbase_url],
         ob\<lparr>coinbase_limiter := (coinbase_limiter ob)\<lparr>last_called := now\<rparr>\<rparr>)"
    if "fst (allow fl (coinbase_limiter ob) now)" "http_get r = Inl e"
    using that by (simp add: fetch_coinbase_def allow_True)
  have g: "fetch_gemini fl ob now r' =
        (Some e', [gemini_url],
         ob\<lparr>gemini_limiter := (gemini_limiter ob)\<lparr>last_called := now\<rparr>\<rparr>)"
    if "fst (allow fl (gemini_limiter ob) now)" "http_get r' = Inl e'"
    using that by (simp add: fetch_gemini_def allow_True)
  show ?thesis
    using c g by simp
qed

theorem fetch_failure_propagates_witness:
  "fst (allow binary64 (coinbase_limiter scenario_ob) 13)
   \<and> http_get (BadStatus :: rat coinbase_level payload reply) = Inl HTTPError
   \<and> fetch_coinbase binary64 scenario_ob 13 BadStatus =
        (Some HTTPError, [coinbase_url],
         scenario_ob\<lparr>coinbase_limiter := (coinbase_limiter scenario_ob)\<lparr>last_called := 13\<rparr>\<rparr>)
   \<and> coinbase_order_book (snd (snd (fetch_coinbase binary64 scenario_ob 13 BadStatus)))
        = coinbase_order_book scenario_ob
   \<and> coinbase_worker binary64 scenario_ob [(13, BadStatus), (16, Json [])] =
        Died HTTPError
          (scenario_ob\<lparr>coinbase_limiter := (coinbase_limiter scenario_ob)\<lparr>last_called := 13\<rparr>\<rparr>)
   \<and> fst (allow binary64 (gemini_limiter scenario_ob) 13)
   \<and> http_get (BadJson :: rat gemini_level payload reply) = Inl JSONDecodeError
   \<and> fetch_gemini binary64 scenario_ob 13 BadJson =
        (Some JSONDecodeError, [gemini_url],
         scenario_ob\<lparr>gemini_limiter := (gemini_limiter scenario_ob)\<lparr>last_called := 13\<rparr>\<rparr>)
   \<and> gemini_order_book (snd (snd (fetch_gemini binary64 scenario_ob 13 BadJson)))
        = gemini_order_book scenario_ob
   \<and> gemini_worker binary64 scenario_ob [(13, BadJson), (16, Json [])] =
        Died JSONDecodeError
          (scenario_ob\<lparr>gemini_limiter := (gemini_limiter scenario_ob)\<lparr>last_called := 13\<rparr>\<rparr>)"
proof -
  have h1: "fst (allow binary64 (coinbase_limiter scenario_ob) 13)" by code_simp
  have h2: "http_get (BadStatus :: rat coinbase_level payload reply) = Inl HTTPError"
    by (simp add: http_get_def)
  have h3: "fst (allow binary64 (gemini_limiter scenario_ob) 13)" by code_simp
  have h4: "http_get (BadJson :: rat gemini_level payload reply) = Inl JSONDecodeError"
    by (simp add: http_get_def)
  from fetch_failure_propagates [of binary64 scenario_ob 13 BadStatus HTTPError "[(16, Json [])]" BadJson
      JSONDecodeError "[(16, Json [])]"] h1 h2 h3 h4
  show ?thesis by blast
qed

text \<open>
  Claim C3 as stated fails: a fetch that meets a bad response status raises \<open>HTTPError\<close>
  to its caller, and the Coinbase worker dies in its first iteration; the good reply of the
  second iteration is never fetched.
\<close>

theorem fetch_failure_ends_worker_counterexample:
  "fetch_coinbase binary64 (OrderBook None) 3 (BadStatus :: rat coinbase_level payload reply) =
     (Some HTTPError, [coinbase_url],
      (OrderBook None)\<lparr>coinbase_limiter := \<lparr>min_interval = 2, last_called = 3\<rparr>\<rparr>)
   \<and> coinbase_worker binary64 (OrderBook None) [(3, BadStatus), (6, Json scenario_coinbase)] =
       Died HTTPError ((OrderBook None)\<lparr>coinbase_limiter := \<lparr>min_interval = 2, last_called = 3\<rparr>\<rparr>)"
proof -
  have a: "allow binary64 (RateLimiter 2) 3 = (True, \<lparr>min_interval = 2, last_called = 3\<rparr>)"
    by code_simp
  have f: "fetch_coinbase binary64 (OrderBook None) 3 (BadStatus :: rat coinbase_level payload reply) =
     (Some HTTPError, [coinbase_url],
      (OrderBook None)\<lparr>coinbase_limiter := \<lparr>min_interval = 2, last_called = 3\<rparr>\<rparr>)"
    by (simp add: fetch_coinbase_def OrderBook_def a http_get_def)
  then show ?thesis by simp
qed

subsection \<open>The internal order book\<close>

lemma append_levels_Inr:
  "append_levels f xs acc = Inr r \<longleftrightarrow> (\<exists>ls. r = acc @ ls \<and> map f xs = map Inr ls)"
proof (induction xs arbitrary: acc)
  case Nil
  then show ?case by auto
next
  case (Cons x xs)
  show ?case
  proof (cases "f x")
    case (Inl e)
    then show ?thesis by (auto simp: map_eq_Cons_conv)
  next
    case (Inr l)
    then show ?thesis
      by (auto simp: Cons.IH map_eq_Cons_conv Cons_eq_map_conv)
  qed
qed

lemma coinbase_level_exchange: "coinbase_level pf lv = Inr l \<Longrightarrow> exchange l = ''coinbase''"
  by (auto simp: coinbase_level_def split: list.splits sum.splits)

lemma gemini_level_exchange: "gemini_level pf lv = Inr l \<Longrightarrow> exchange l = ''gemini''"
  by (auto simp: gemini_level_def split: option.splits sum.splits)

lemma map_coinbase_exchange:
  "map (coinbase_level pf) xs = map Inr ls \<Longrightarrow> \<forall>l\<in>set ls. exchange l = ''coinbase''"
proof (induction xs arbitrary: ls)
  case Nil
  then show ?case by simp
next
  case (Cons x xs)
  then show ?case by (auto simp: Cons_eq_map_conv dest: coinbase_level_exchange)
qed

lemma map_gemini_exchange:
  "map (gemini_level pf) xs = map Inr ls \<Longrightarrow> \<forall>l\<in>set ls. exchange l = ''gemini''"
proof (induction xs arbitrary: ls)
  case Nil
  then show ?case by simp
next
  case (Cons x xs)
  then show ?case by (auto simp: Cons_eq_map_conv dest: gemini_level_exchange)
qed

lemma venue_levels_append:
  assumes "\<forall>l\<in>set cs. exchange l = ''coinbase''" and "\<forall>l\<in>set gs. exchange l = ''gemini''"
  shows "venue_levels ''coinbase'' (cs @ gs) = cs" and "venue_levels ''gemini'' (cs @ gs) = gs"
proof -
  have "filter (\<lambda>l. exchange l = ''coinbase'') cs = cs" "filter (\<lambda>l. exchange l = ''gemini'') gs = gs"
    using assms by (simp_all add: filter_id_conv)
  moreover have "filter (\<lambda>l. exchange l = ''coinbase'') gs = []" "filter (\<lambda>l. exchange l = ''gemini'') cs = []"
    using assms by (auto simp: filter_empty_conv)
  ultimately show "venue_levels ''coinbase'' (cs @ gs) = cs" "venue_levels ''gemini'' (cs @ gs) = gs"
    by (simp_all add: venue_levels_def)
qed

lemma bind_err_Inr: "bind_err m k = Inr y \<longleftrightarrow> (\<exists>x. m = Inr x \<and> k x = Inr y)"
  by (cases m) (simp_all add: bind_err_def)

lemma bind_err_simps: "bind_err (Inr x) k = k x" "bind_err (Inl e) k = Inl e"
  by (simp_all add: bind_err_def)

lemma depth_levels_Inr:
  "depth_levels d side = Inr lvls \<longleftrightarrow> (\<exists>xs. side = Some xs \<and> lvls = slice_to xs (side_depth d xs))"
  by (cases side) (auto simp: depth_levels_def)

lemma new_internal_book_Inr:
  assumes "new_internal_book pf d cb gm = Inr B"
  shows "\<exists>cbb gmb cba gma cbs gms cas gas.
           side_of cb ''bids'' = Some cbb \<and> side_of gm ''bids'' = Some gmb
         \<and> side_of cb ''asks'' = Some cba \<and> side_of gm ''asks'' = Some gma
         \<and> map (coinbase_level pf) (slice_to cbb (side_depth d cbb)) = map Inr cbs
         \<and> map (gemini_level pf) (slice_to gmb (side_depth d gmb)) = map Inr gms
         \<and> map (coinbase_level pf) (slice_to cba (side_depth d cba)) = map Inr cas
         \<and> map (gemini_level pf) (slice_to gma (side_depth d gma)) = map Inr gas
         \<and> bids B = cbs @ gms \<and> asks B = cas @ gas"
proof -
  from assms obtain t1 where t1: "depth_levels d (side_of cb ''bids'') = Inr t1"
    and r1: "bind_err (depth_levels d (side_of gm ''bids'')) (\<lambda>t2.
         bind_err (depth_levels d (side_of cb ''asks'')) (\<lambda>t3.
         bind_err (depth_levels d (side_of gm ''asks'')) (\<lambda>t4.
         bind_err (append_levels (coinbase_level pf) t1 []) (\<lambda>bids1.
         bind_err (append_levels (gemini_level pf) t2 bids1) (\<lambda>bids2.
         bind_err (append_levels (coinbase_level pf) t3 []) (\<lambda>asks1.
         bind_err (append_levels (gemini_level pf) t4 asks1) (\<lambda>asks2.
         Inr \<lparr>bids = bids2, asks = asks2\<rparr>))))))) = Inr B"
    unfolding new_internal_book_def Let_def by (subst (asm) bind_err_Inr) blast
  from r1 obtain t2 where t2: "depth_levels d (side_of gm ''bids'') = Inr t2"
    and r2: "bind_err (depth_levels d (side_of cb ''asks'')) (\<lambda>t3.
         bind_err (depth_levels d (side_of gm ''asks'')) (\<lambda>t4.
         bind_err (append_levels (coinbase_level pf) t1 []) (\<lambda>bids1.
         bind_err (append_levels (gemini_level pf) t2 bids1) (\<lambda>bids2.
         bind_err (append_levels (coinbase_level pf) t3 []) (\<lambda>asks1.
         bind_err (append_levels (gemini_level pf) t4 asks1) (\<lambda>asks2.
         Inr \<lparr>bids = bids2, asks = asks2\<rparr>)))))) = Inr B"
    by (subst (asm) bind_err_Inr) blast
  from r2 obtain t3 where t3: "depth_levels d (side_of cb ''asks'') = Inr t3"
    and r3: "bind_err (depth_levels d (side_of gm ''asks'')) (\<lambda>t4.
         bind_err (append_levels (coinbase_level pf) t1 []) (\<lambda>bids1.
         bind_err (append_levels (gemini_level pf) t2 bids1) (\<lambda>bids2.
         bind_err (append_levels (coinbase_level pf) t3 []) (\<lambda>asks1.
         bind_err (append_levels (gemini_level pf) t4 asks1) (\<lambda>asks2.
         Inr \<lparr>bids = bids2, asks = asks2\<rparr>))))) = Inr B"
    by (subst (asm) bind_err_Inr) blast
  from r3 obtain t4 where t4: "depth_levels d (side_of gm ''asks'') = Inr t4"
    and r4: "bind_err (append_levels (coinbase_level pf) t1 []) (\<lambda>bids1.
         bind_err (append_levels (gemini_level pf) t2 bids1) (\<lambda>bids2.
         bind_err (append_levels (coinbase_level pf) t3 []) (\<lambda>asks1.
         bind_err (append_levels (gemini_level pf) t4 asks1) (\<lambda>asks2.
         Inr \<lparr>bids = bids2, asks = asks2\<rparr>)))) = Inr B"
    by (subst (asm) bind_err_Inr) blast
  from r4 obtain b1 where b1: "append_levels (coinbase_level pf) t1 [] = Inr b1"
    and r5: "bind_err (append_levels (gemini_level pf) t2 b1) (\<lambda>bids2.
         bind_err (append_levels (coinbase_level pf) t3 []) (\<lambda>asks1.
         bind_err (append_levels (gemini_level pf) t4 asks1) (\<lambda>asks2.
         Inr \<lparr>bids = bids2, asks = asks2\<rparr>))) = Inr B"
    by (subst (asm) bind_err_Inr) blast
  from r5 obtain b2 where b2: "append_levels (gemini_level pf) t2 b1 = Inr b2"
    and r6: "bind_err (append_levels (coinbase_level pf) t3 []) (\<lambda>asks1.
         bind_err (append_levels (gemini_level pf) t4 asks1) (\<lambda>asks2.
         Inr \<lparr>bids = b2, asks = asks2\<rparr>)) = Inr B"
    by (subst (asm) bind_err_Inr) blast
  from r6 obtain a1 where a1: "append_levels (coinbase_level pf) t3 [] = Inr a1"
    and r7: "bind_err (append_levels (gemini_level pf) t4 a1) (\<lambda>asks2.
         Inr \<lparr>bids = b2, asks = asks2\<rparr>) = Inr B"
    by (subst (asm) bind_err_Inr) blast
  from r7 obtain a2 where a2: "append_levels (gemini_level pf) t4 a1 = Inr a2"
    and B: "B = \<lparr>bids = b2, asks = a2\<rparr>"
    by (subst (asm) bind_err_Inr) auto
  from t1 t2 t3 t4 obtain cbb gmb cba gma where
    s: "side_of cb ''bids'' = Some cbb" "t1 = slice_to cbb (side_depth d cbb)"
       "side_of gm ''bids'' = Some gmb" "t2 = slice_to gmb (side_depth d gmb)"
       "side_of cb ''asks'' = Some cba" "t3 = slice_to cba (side_depth d cba)"
       "side_of gm ''asks'' = Some gma" "t4 = slice_to gma (side_depth d gma)"
    unfolding depth_levels_Inr by blast
  from b1 obtain cbs where cbs: "b1 = cbs" "map (coinbase_level pf) t1 = map Inr cbs"
    unfolding append_levels_Inr by auto
  from b2 obtain gms where gms: "b2 = b1 @ gms" "map (gemini_level pf) t2 = map Inr gms"
    unfolding append_levels_Inr by auto
  from a1 obtain cas where cas: "a1 = cas" "map (coinbase_level pf) t3 = map Inr cas"
    unfolding append_levels_Inr by auto
  from a2 obtain gas where gas: "a2 = a1 @ gas" "map (gemini_level pf) t4 = map Inr gas"
    unfolding append_levels_Inr by auto
  show ?thesis
    using s cbs gms cas gas B by simp
qed

lemma slice_to_positive:
  "0 < n \<Longrightarrow> slice_to xs (side_depth (Some n) xs) = take (nat n) xs"
  by (auto simp: slice_to_def side_depth_def min_def)

lemma slice_to_unbounded:
  "slice_to xs (side_depth (Some 0) xs) = xs" "slice_to xs (side_depth None xs) = xs"
  by (simp_all add: slice_to_def side_depth_def)

lemma depth_levels_zero: "depth_levels (Some 0) side = depth_levels None side"
  by (simp add: depth_levels_def side_depth_def split: option.splits)

lemma map_Inr_length: "map f xs = map Inr ls \<Longrightarrow> length ls = length xs"
  by (metis length_map)

lemma side_of_absent: "side_of None key = Some []" "side_of (Some empty_book) ''bids'' = Some []"
  "side_of (Some empty_book) ''asks'' = Some []"
  by (simp_all add: side_of_def empty_book_def)

lemma depth_levels_empty: "depth_levels d (Some []) = Inr []"
  by (simp add: depth_levels_def slice_to_def side_depth_def split: option.splits)

lemma new_internal_book_InrI:
  assumes "side_of cb ''bids'' = Some cbb" and "side_of gm ''bids'' = Some gmb"
    and "side_of cb ''asks'' = Some cba" and "side_of gm ''asks'' = Some gma"
    and "map (coinbase_level pf) (slice_to cbb (side_depth d cbb)) = map Inr cbs"
    and "map (gemini_level pf) (slice_to gmb (side_depth d gmb)) = map Inr gms"
    and "map (coinbase_level pf) (slice_to cba (side_depth d cba)) = map Inr cas"
    and "map (gemini_level pf) (slice_to gma (side_depth d gma)) = map Inr gas"
  shows "new_internal_book pf d cb gm = Inr \<lparr>bids = cbs @ gms, asks = cas @ gas\<rparr>"
proof -
  have a1: "append_levels (coinbase_level pf) (slice_to cbb (side_depth d cbb)) [] = Inr cbs"
    using assms(5) by (simp add: append_levels_Inr)
  have a2: "append_levels (gemini_level pf) (slice_to gmb (side_depth d gmb)) cbs = Inr (cbs @ gms)"
    using assms(6) by (simp add: append_levels_Inr)
  have a3: "append_levels (coinbase_level pf) (slice_to cba (side_depth d cba)) [] = Inr cas"
    using assms(7) by (simp add: append_levels_Inr)
  have a4: "append_levels (gemini_level pf) (slice_to gma (side_depth d gma)) cas = Inr (cas @ gas)"
    using assms(8) by (simp add: append_levels_Inr)
  show ?thesis
    by (simp add: new_internal_book_def depth_levels_def bind_err_simps assms(1-4) a1 a2 a3 a4)
qed

lemma build_ok_iff:
  "(build_internal_order_book pf ob = (None, ob')) =
   (\<exists>cbb gmb cba gma cbs gms cas gas.
        side_of (coinbase_order_book ob) ''bids'' = Some cbb
      \<and> side_of (gemini_order_book ob) ''bids'' = Some gmb
      \<and> side_of (coinbase_order_book ob) ''asks'' = Some cba
      \<and> side_of (gemini_order_book ob) ''asks'' = Some gma
      \<and> map (coinbase_level pf) (slice_to cbb (side_depth (depth ob) cbb)) = map Inr cbs
      \<and> map (gemini_level pf) (slice_to gmb (side_depth (depth ob) gmb)) = map Inr gms
      \<and> map (coinbase_level pf) (slice_to cba (side_depth (depth ob) cba)) = map Inr cas
      \<and> map (gemini_level pf) (slice_to gma (side_depth (depth ob) gma)) = map Inr gas
      \<and> ob' = ob\<lparr>internal_order_book := Some \<lparr>bids = cbs @ gms, asks = cas @ gas\<rparr>\<rparr>)"
  (is "?L = ?R")
proof
  assume ?L
  then obtain B where
    B: "new_internal_book pf (depth ob) (coinbase_order_book ob) (gemini_order_book ob) = Inr B"
      "ob' = ob\<lparr>internal_order_book := Some B\<rparr>"
    by (auto simp: build_internal_order_book_def split: sum.splits)
  from new_internal_book_Inr [OF B(1)] obtain cbb gmb cba gma cbs gms cas gas where
    f: "side_of (coinbase_order_book ob) ''bids'' = Some cbb"
       "side_of (gemini_order_book ob) ''bids'' = Some gmb"
       "side_of (coinbase_order_book ob) ''asks'' = Some cba"
       "side_of (gemini_order_book ob) ''asks'' = Some gma"
       "map (coinbase_level pf) (slice_to cbb (side_depth (depth ob) cbb)) = map Inr cbs"
       "map (gemini_level pf) (slice_to gmb (side_depth (depth ob) gmb)) = map Inr gms"
       "map (coinbase_level pf) (slice_to cba (side_depth (depth ob) cba)) = map Inr cas"
       "map (gemini_level pf) (slice_to gma (side_depth (depth ob) gma)) = map Inr gas"
       "bids B = cbs @ gms" "asks B = cas @ gas"
    by blast
  have "B = \<lparr>bids = cbs @ gms, asks = cas @ gas\<rparr>" using f(9,10) by simp
  with B(2) f(1-8) show ?R by blast
next
  assume ?R
  then obtain cbb gmb cba gma cbs gms cas gas where
    f: "side_of (coinbase_order_book ob) ''bids'' = Some cbb"
       "side_of (gemini_order_book ob) ''bids'' = Some gmb"
       "side_of (coinbase_order_book ob) ''asks'' = Some cba"
       "side_of (gemini_order_book ob) ''asks'' = Some gma"
       "map (coinbase_level pf) (slice_to cbb (side_depth (depth ob) cbb)) = map Inr cbs"
       "map (gemini_level pf) (slice_to gmb (side_depth (depth ob) gmb)) = map Inr gms"
       "map (coinbase_level pf) (slice_to cba (side_depth (depth ob) cba)) = map Inr cas"
       "map (gemini_level pf) (slice_to gma (side_depth (depth ob) gma)) = map Inr gas"
       "ob' = ob\<lparr>internal_order_book := Some \<lparr>bids = cbs @ gms, asks = cas @ gas\<rparr>\<rparr>"
    by blast
  show ?L
    by (simp add: build_internal_order_book_def new_internal_book_InrI [OF f(1-8)] f(9))
qed

lemma map_Inr_Nil: "([] = map Inr ls) = (ls = [])" "(map Inr ls = []) = (ls = [])"
  by auto

lemma side_of_present: "map_of d key = Some xs \<Longrightarrow> side_of (Some d) key = Some xs"
  by (cases d) (simp_all add: side_of_def)

lemma build_absent_is_empty:
  "fst (build_internal_order_book pf (ob\<lparr>gemini_order_book := None\<rparr>))
     = fst (build_internal_order_book pf (ob\<lparr>gemini_order_book := Some empty_book\<rparr>))"
  "internal_order_book (snd (build_internal_order_book pf (ob\<lparr>gemini_order_book := None\<rparr>)))
     = internal_order_book
         (snd (build_internal_order_book pf (ob\<lparr>gemini_order_book := Some empty_book\<rparr>)))"
  "fst (build_internal_order_book pf (ob\<lparr>coinbase_order_book := None\<rparr>))
     = fst (build_internal_order_book pf (ob\<lparr>coinbase_order_book := Some empty_book\<rparr>))"
  "internal_order_book (snd (build_internal_order_book pf (ob\<lparr>coinbase_order_book := None\<rparr>)))
     = internal_order_book
         (snd (build_internal_order_book pf (ob\<lparr>coinbase_order_book := Some empty_book\<rparr>)))"
proof -
  have g: "new_internal_book pf d cb None = new_internal_book pf d cb (Some empty_book)" for d cb
    by (simp add: new_internal_book_def side_of_absent)
  have c: "new_internal_book pf d None gm = new_internal_book pf d (Some empty_book) gm" for d gm
    by (simp add: new_internal_book_def side_of_absent)
  show "fst (build_internal_order_book pf (ob\<lparr>gemini_order_book := None\<rparr>))
     = fst (build_internal_order_book pf (ob\<lparr>gemini_order_book := Some empty_book\<rparr>))"
    by (simp add: build_internal_order_book_def g split: sum.splits)
  show "internal_order_book (snd (build_internal_order_book pf (ob\<lparr>gemini_order_book := None\<rparr>)))
     = internal_order_book
         (snd (build_internal_order_book pf (ob\<lparr>gemini_order_book := Some empty_book\<rparr>)))"
    by (simp add: build_internal_order_book_def g split: sum.splits)
  show "fst (build_internal_order_book pf (ob\<lparr>coinbase_order_book := None\<rparr>))
     = fst (build_internal_order_book pf (ob\<lparr>coinbase_order_book := Some empty_book\<rparr>))"
    by (simp add: build_internal_order_book_def c split: sum.splits)
  show "internal_order_book (snd (build_internal_order_book pf (ob\<lparr>coinbase_order_book := None\<rparr>)))
     = internal_order_book
         (snd (build_internal_order_book pf (ob\<lparr>coinbase_order_book := Some empty_book\<rparr>)))"
    by (simp add: build_internal_order_book_def c split: sum.splits)
qed

lemma scenario_build:
  "build_internal_order_book Inr scenario_fetched = (None, scenario_ob)"
  by (simp add: build_internal_order_book_def new_internal_book_def scenario_fetched_def
      scenario_ob_def scenario_book_def scenario_coinbase_def scenario_gemini_def
      side_of_def depth_levels_def side_depth_def slice_to_def bind_err_def
      coinbase_level_def gemini_level_def coinbase_lv_def gemini_lv_def)

lemma scenario_build_zero:
  "build_internal_order_book Inr (scenario_fetched\<lparr>depth := Some 0\<rparr>) =
     (None, scenario_fetched\<lparr>depth := Some 0, internal_order_book := Some full_book\<rparr>)"
  by (simp add: build_internal_order_book_def new_internal_book_def scenario_fetched_def
      full_book_def scenario_coinbase_def scenario_gemini_def
      side_of_def depth_levels_def side_depth_def slice_to_def bind_err_def
      coinbase_level_def gemini_level_def coinbase_lv_def gemini_lv_def)

text \<open>
  Claim C4, for a positive depth. When \<open>build_internal_order_book\<close> succeeds with the
  configured depth \<open>n > 0\<close>, the levels of each venue in each side of the new internal book
  are the first \<open>n\<close> levels the venue returned for that side (all of them when there are
  fewer), normalised, in the venue's order; so their number is the minimum of \<open>n\<close> and the
  number of levels the venue returned.
\<close>

theorem per_venue_depth_prefix:
  assumes "build_internal_order_book pf ob = (None, ob')" and "depth ob = Some n" and "0 < n"
  shows "\<exists>B cbb gmb cba gma.
           internal_order_book ob' = Some B
         \<and> side_of (coinbase_order_book ob) ''bids'' = Some cbb
         \<and> side_of (gemini_order_book ob) ''bids'' = Some gmb
         \<and> side_of (coinbase_order_book ob) ''asks'' = Some cba
         \<and> side_of (gemini_order_book ob) ''asks'' = Some gma
         \<and> map Inr (venue_levels ''coinbase'' (bids B)) = map (coinbase_level pf) (take (nat n) cbb)
         \<and> map Inr (venue_levels ''gemini'' (bids B)) = map (gemini_level pf) (take (nat n) gmb)
         \<and> map Inr (venue_levels ''coinbase'' (asks B)) = map (coinbase_level pf) (take (nat n) cba)
         \<and> map Inr (venue_levels ''gemini'' (asks B)) = map (gemini_level pf) (take (nat n) gma)
         \<and> length (venue_levels ''coinbase'' (bids B)) = min (nat n) (length cbb)
         \<and> length (venue_levels ''gemini'' (bids B)) = min (nat n) (length gmb)
         \<and> length (venue_levels ''coinbase'' (asks B)) = min (nat n) (length cba)
         \<and> length (venue_levels ''gemini'' (asks B)) = min (nat n) (length gma)"
proof -
  from assms(1) obtain B where
    B: "new_internal_book pf (depth ob) (coinbase_order_book ob) (gemini_order_book ob) = Inr B"
      "internal_order_book ob' = Some B"
    by (auto simp: build_internal_order_book_def split: sum.splits)
  from new_internal_book_Inr [OF B(1)] obtain cbb gmb cba gma cbs gms cas gas where
    s: "side_of (coinbase_order_book ob) ''bids'' = Some cbb"
       "side_of (gemini_order_book ob) ''bids'' = Some gmb"
       "side_of (coinbase_order_book ob) ''asks'' = Some cba"
       "side_of (gemini_order_book ob) ''asks'' = Some gma"
    and m: "map (coinbase_level pf) (take (nat n) cbb) = map Inr cbs"
       "map (gemini_level pf) (take (nat n) gmb) = map Inr gms"
       "map (coinbase_level pf) (take (nat n) cba) = map Inr cas"
       "map (gemini_level pf) (take (nat n) gma) = map Inr gas"
    and b: "bids B = cbs @ gms" "asks B = cas @ gas"
    using assms(2,3) by (auto simp: slice_to_positive)
  have v: "venue_levels ''coinbase'' (bids B) = cbs" "venue_levels ''gemini'' (bids B) = gms"
    "venue_levels ''coinbase'' (asks B) = cas" "venue_levels ''gemini'' (asks B) = gas"
    unfolding b
    using venue_levels_append [OF map_coinbase_exchange [OF m(1)] map_gemini_exchange [OF m(2)]]
      venue_levels_append [OF map_coinbase_exchange [OF m(3)] map_gemini_exchange [OF m(4)]]
    by simp_all
  have l: "length cbs = min (nat n) (length cbb)" "length gms = min (nat n) (length gmb)"
    "length cas = min (nat n) (length cba)" "length gas = min (nat n) (length gma)"
    using map_Inr_length [OF m(1)] map_Inr_length [OF m(2)]
      map_Inr_length [OF m(3)] map_Inr_length [OF m(4)] by (simp_all add: min.commute)
  show ?thesis
    using B(2) s m v l by simp
qed

theorem per_venue_depth_prefix_witness:
  "build_internal_order_book Inr scenario_fetched = (None, scenario_ob)
   \<and> depth scenario_fetched = Some 2 \<and> (0::int) < 2
   \<and> venue_levels ''coinbase'' (bids scenario_book) = [coinbase_lv 99 1, coinbase_lv 98 2]
   \<and> venue_levels ''gemini'' (bids scenario_book) = [gemini_lv (197 / 2) 1]
   \<and> (\<exists>B cbb gmb cba gma.
           internal_order_book scenario_ob = Some B
         \<and> side_of (coinbase_order_book scenario_fetched) ''bids'' = Some cbb
         \<and> side_of (gemini_order_book scenario_fetched) ''bids'' = Some gmb
         \<and> side_of (coinbase_order_book scenario_fetched) ''asks'' = Some cba
         \<and> side_of (gemini_order_book scenario_fetched) ''asks'' = Some gma
         \<and> length (venue_levels ''coinbase'' (bids B)) = min (nat 2) (length cbb)
         \<and> length (venue_levels ''gemini'' (bids B)) = min (nat 2) (length gmb)
         \<and> length (venue_levels ''coinbase'' (asks B)) = min (nat 2) (length cba)
         \<and> length (venue_levels ''gemini'' (asks B)) = min (nat 2) (length gma))"
proof -
  have h2: "depth scenario_fetched = Some 2" by (simp add: scenario_fetched_def)
  have h3: "(0::int) < 2" by simp
  have v: "venue_levels ''coinbase'' (bids scenario_book) = [coinbase_lv 99 1, coinbase_lv 98 2]"
    "venue_levels ''gemini'' (bids scenario_book) = [gemini_lv (197 / 2) 1]"
    by (simp_all add: venue_levels_def scenario_book_def coinbase_lv_def gemini_lv_def)
  from per_venue_depth_prefix [OF scenario_build h2 h3] scenario_build h2 h3 v show ?thesis by blast
qed

text \<open>
  Claim C4 as stated, for every depth, fails at the depth \<open>0\<close>: the book then holds all
  three Coinbase bids, more than the depth and more than the minimum of the depth and three.
\<close>

theorem depth_zero_exceeds_depth_counterexample:
  "build_internal_order_book Inr (scenario_fetched\<lparr>depth := Some 0\<rparr>) =
     (None, scenario_fetched\<lparr>depth := Some 0, internal_order_book := Some full_book\<rparr>)
   \<and> side_of (Some scenario_coinbase) ''bids'' = Some [[99, 1, 4], [98, 2, 1], [97, 5, 2]]
   \<and> length (venue_levels ''coinbase'' (bids full_book)) = 3
   \<and> min (nat 0) (length [[99, 1, 4], [98, 2, 1], [97, 5, 2 :: rat]]) = 0"
  using scenario_build_zero
  by (simp add: venue_levels_def full_book_def coinbase_lv_def gemini_lv_def side_of_def
      scenario_coinbase_def)

text \<open>
  Claim C6. When a venue has no snapshot, the outcome of \<open>build_internal_order_book\<close>
  (the exception, if any, and the stored internal book) is the one of the build with the
  empty book \<open>{bids: [], asks: []}\<close> in the place of the absent snapshot, whatever the
  other venue holds. When the other venue has a snapshot with its \<open>bids\<close> and \<open>asks\<close>,
  the build succeeds exactly when the levels it keeps of that venue normalise, and the
  internal book it then stores holds these normalised levels, in the venue's order, and
  nothing else: the book of that venue alone.
\<close>

theorem absent_venue_is_empty_book:
  "(gemini_order_book ob = None \<longrightarrow>
      fst (build_internal_order_book pf ob)
        = fst (build_internal_order_book pf (ob\<lparr>gemini_order_book := Some empty_book\<rparr>))
      \<and> internal_order_book (snd (build_internal_order_book pf ob))
          = internal_order_book
              (snd (build_internal_order_book pf (ob\<lparr>gemini_order_book := Some empty_book\<rparr>))))
   \<and> (coinbase_order_book ob = None \<longrightarrow>
      fst (build_internal_order_book pf ob)
        = fst (build_internal_order_book pf (ob\<lparr>coinbase_order_book := Some empty_book\<rparr>))
      \<and> internal_order_book (snd (build_internal_order_book pf ob))
          = internal_order_book
              (snd (build_internal_order_book pf (ob\<lparr>coinbase_order_book := Some empty_book\<rparr>))))
   \<and> (coinbase_order_book ob = Some cb \<and> map_of cb ''bids'' = Some cbb
      \<and> map_of cb ''asks'' = Some cba \<and> gemini_order_book ob = None \<longrightarrow>
      (build_internal_order_book pf ob = (None, ob')) =
        (\<exists>cbl cal.
            map (coinbase_level pf) (slice_to cbb (side_depth (depth ob) cbb)) = map Inr cbl
          \<and> map (coinbase_level pf) (slice_to cba (side_depth (depth ob) cba)) = map Inr cal
          \<and> ob' = ob\<lparr>internal_order_book := Some \<lparr>bids = cbl, asks = cal\<rparr>\<rparr>))
   \<and> (gemini_order_book ob = Some gm \<and> map_of gm ''bids'' = Some gmb
      \<and> map_of gm ''asks'' = Some gma \<and> coinbase_order_book ob = None \<longrightarrow>
      (build_internal_order_book pf ob = (None, ob')) =
        (\<exists>gml gal.
            map (gemini_level pf) (slice_to gmb (side_depth (depth ob) gmb)) = map Inr gml
          \<and> map (gemini_level pf) (slice_to gma (side_depth (depth ob) gma)) = map Inr gal
          \<and> ob' = ob\<lparr>internal_order_book := Some \<lparr>bids = gml, asks = gal\<rparr>\<rparr>))"
proof (intro conjI impI; (elim conjE)?)
  assume h: "gemini_order_book ob = None"
  have o: "ob = ob\<lparr>gemini_order_book := None\<rparr>" using h by simp
  show "fst (build_internal_order_book pf ob)
          = fst (build_internal_order_book pf (ob\<lparr>gemini_order_book := Some empty_book\<rparr>))"
    by (subst o) (simp only: build_absent_is_empty)
  show "internal_order_book (snd (build_internal_order_book pf ob))
          = internal_order_book
              (snd (build_internal_order_book pf (ob\<lparr>gemini_order_book := Some empty_book\<rparr>)))"
    by (subst o) (simp only: build_absent_is_empty)
next
  assume h: "coinbase_order_book ob = None"
  have o: "ob = ob\<lparr>coinbase_order_book := None\<rparr>" using h by simp
  show "fst (build_internal_order_book pf ob)
          = fst (build_internal_order_book pf (ob\<lparr>coinbase_order_book := Some empty_book\<rparr>))"
    by (subst o) (simp only: build_absent_is_empty)
  show "internal_order_book (snd (build_internal_order_book pf ob))
          = internal_order_book
              (snd (build_internal_order_book pf (ob\<lparr>coinbase_order_book := Some empty_book\<rparr>)))"
    by (subst o) (simp only: build_absent_is_empty)
next
  assume h: "coinbase_order_book ob = Some cb" "map_of cb ''bids'' = Some cbb"
    "map_of cb ''asks'' = Some cba" "gemini_order_book ob = None"
  have e: "slice_to [] n = []" for n :: int by (simp add: slice_to_def)
  show "(build_internal_order_book pf ob = (None, ob')) =
        (\<exists>cbl cal.
            map (coinbase_level pf) (slice_to cbb (side_depth (depth ob) cbb)) = map Inr cbl
          \<and> map (coinbase_level pf) (slice_to cba (side_depth (depth ob) cba)) = map Inr cal
          \<and> ob' = ob\<lparr>internal_order_book := Some \<lparr>bids = cbl, asks = cal\<rparr>\<rparr>)"
    by (simp add: build_ok_iff h side_of_present side_of_absent e map_Inr_Nil)
next
  assume h: "gemini_order_book ob = Some gm" "map_of gm ''bids'' = Some gmb"
    "map_of gm ''asks'' = Some gma" "coinbase_order_book ob = None"
  have e: "slice_to [] n = []" for n :: int by (simp add: slice_to_def)
  show "(build_internal_order_book pf ob = (None, ob')) =
        (\<exists>gml gal.
            map (gemini_level pf) (slice_to gmb (side_depth (depth ob) gmb)) = map Inr gml
          \<and> map (gemini_level pf) (slice_to gma (side_depth (depth ob) gma)) = map Inr gal
          \<and> ob' = ob\<lparr>internal_order_book := Some \<lparr>bids = gml, asks = gal\<rparr>\<rparr>)"
    by (simp add: build_ok_iff h side_of_present side_of_absent e map_Inr_Nil)
qed

theorem absent_venue_is_empty_book_witness:
  "build_internal_order_book Inr coinbase_only =
     (None, coinbase_only\<lparr>internal_order_book := Some coinbase_only_book\<rparr>)
   \<and> fst (build_internal_order_book Inr (coinbase_only\<lparr>gemini_order_book := Some empty_book\<rparr>))
       = None
   \<and> internal_order_book
        (snd (build_internal_order_book Inr (coinbase_only\<lparr>gemini_order_book := Some empty_book\<rparr>)))
       = Some coinbase_only_book
   \<and> build_internal_order_book Inr gemini_only =
     (None, gemini_only\<lparr>internal_order_book := Some gemini_only_book\<rparr>)
   \<and> fst (build_internal_order_book Inr (gemini_only\<lparr>coinbase_order_book := Some empty_book\<rparr>))
       = None
   \<and> internal_order_book
        (snd (build_internal_order_book Inr (gemini_only\<lparr>coinbase_order_book := Some empty_book\<rparr>)))
       = Some gemini_only_book"
proof -
  let ?cbb = "[[99, 1, 4], [98, 2, 1], [97, 5, 2 :: rat]]"
  let ?cba = "[[100, 1, 1], [101, 2, 3 :: rat]]"
  let ?gmb = "[[(''price'', 197 / 2 :: rat), (''amount'', 1)]]"
  let ?gma = "[[(''price'', 201 / 2 :: rat), (''amount'', 3 / 2)]]"
  have c: "coinbase_order_book coinbase_only = Some scenario_coinbase
      \<and> map_of scenario_coinbase ''bids'' = Some ?cbb
      \<and> map_of scenario_coinbase ''asks'' = Some ?cba
      \<and> gemini_order_book coinbase_only = None"
    by (simp add: coinbase_only_def scenario_fetched_def scenario_coinbase_def)
  have cp: "map (coinbase_level Inr) (slice_to ?cbb (side_depth (depth coinbase_only) ?cbb))
        = map Inr (bids coinbase_only_book)
      \<and> map (coinbase_level Inr) (slice_to ?cba (side_depth (depth coinbase_only) ?cba))
        = map Inr (asks coinbase_only_book)"
    by (simp add: coinbase_only_def scenario_fetched_def coinbase_only_book_def slice_to_def
        side_depth_def coinbase_level_def coinbase_lv_def)
  have g: "gemini_order_book gemini_only = Some scenario_gemini
      \<and> map_of scenario_gemini ''bids'' = Some ?gmb
      \<and> map_of scenario_gemini ''asks'' = Some ?gma
      \<and> coinbase_order_book gemini_only = None"
    by (simp add: gemini_only_def scenario_fetched_def scenario_gemini_def)
  have gp: "map (gemini_level Inr) (slice_to ?gmb (side_depth (depth gemini_only) ?gmb))
        = map Inr (bids gemini_only_book)
      \<and> map (gemini_level Inr) (slice_to ?gma (side_depth (depth gemini_only) ?gma))
        = map Inr (asks gemini_only_book)"
    by (simp add: gemini_only_def scenario_fetched_def gemini_only_book_def slice_to_def
        side_depth_def gemini_level_def gemini_lv_def)
  note tc = absent_venue_is_empty_book [where ob = coinbase_only and cb = scenario_coinbase and cbb = ?cbb
      and cba = ?cba and pf = Inr
      and ob' = "coinbase_only\<lparr>internal_order_book := Some coinbase_only_book\<rparr>",
      THEN conjunct2, THEN conjunct2, THEN conjunct1, THEN mp, OF c]
  note tg = absent_venue_is_empty_book [where ob = gemini_only and gm = scenario_gemini and gmb = ?gmb
      and gma = ?gma and pf = Inr
      and ob' = "gemini_only\<lparr>internal_order_book := Some gemini_only_book\<rparr>",
      THEN conjunct2, THEN conjunct2, THEN conjunct2, THEN mp, OF g]
  note ec = absent_venue_is_empty_book [where ob = coinbase_only and pf = Inr, THEN conjunct1, THEN mp,
      OF c [THEN conjunct2, THEN conjunct2, THEN conjunct2]]
  note eg = absent_venue_is_empty_book [where ob = gemini_only and pf = Inr, THEN conjunct2, THEN conjunct1, THEN mp,
      OF g [THEN conjunct2, THEN conjunct2, THEN conjunct2]]
  have 1: "build_internal_order_book Inr coinbase_only =
     (None, coinbase_only\<lparr>internal_order_book := Some coinbase_only_book\<rparr>)"
    apply (rule tc [THEN iffD2])
    apply (rule exI [of _ "bids coinbase_only_book"])
    apply (rule exI [of _ "asks coinbase_only_book"])
    apply (intro conjI)
      apply (rule cp [THEN conjunct1])
     apply (rule cp [THEN conjunct2])
    apply simp
    done
  have 2: "build_internal_order_book Inr gemini_only =
     (None, gemini_only\<lparr>internal_order_book := Some gemini_only_book\<rparr>)"
    apply (rule tg [THEN iffD2])
    apply (rule exI [of _ "bids gemini_only_book"])
    apply (rule exI [of _ "asks gemini_only_book"])
    apply (intro conjI)
      apply (rule gp [THEN conjunct1])
     apply (rule gp [THEN conjunct2])
    apply simp
    done
  from ec 1 have 3: "fst (build_internal_order_book Inr
        (coinbase_only\<lparr>gemini_order_book := Some empty_book\<rparr>)) = None"
    "internal_order_book (snd (build_internal_order_book Inr
        (coinbase_only\<lparr>gemini_order_book := Some empty_book\<rparr>))) = Some coinbase_only_book"
    by simp_all
  from eg 2 have 4: "fst (build_internal_order_book Inr
        (gemini_only\<lparr>coinbase_order_book := Some empty_book\<rparr>)) = None"
    "internal_order_book (snd (build_internal_order_book Inr
        (gemini_only\<lparr>coinbase_order_book := Some empty_book\<rparr>))) = Some gemini_only_book"
    by simp_all
  from 1 2 3 4 show ?thesis by (intro conjI)
qed

text \<open>
  Claim C10. With the configured depth \<open>0\<close>, \<open>build_internal_order_book\<close> succeeds
  exactly when every level of both venues normalises, and the internal book it then stores
  holds in each side every level of Coinbase followed by every level of Gemini: nothing is
  cut. Its outcome is the one of the build with no depth at all.
\<close>

theorem depth_zero_is_unbounded:
  assumes "depth ob = Some 0"
  shows "(build_internal_order_book pf ob = (None, ob')) =
           (\<exists>cbb gmb cba gma cbl gml cal gal.
                side_of (coinbase_order_book ob) ''bids'' = Some cbb
              \<and> side_of (gemini_order_book ob) ''bids'' = Some gmb
              \<and> side_of (coinbase_order_book ob) ''asks'' = Some cba
              \<and> side_of (gemini_order_book ob) ''asks'' = Some gma
              \<and> map (coinbase_level pf) cbb = map Inr cbl
              \<and> map (gemini_level pf) gmb = map Inr gml
              \<and> map (coinbase_level pf) cba = map Inr cal
              \<and> map (gemini_level pf) gma = map Inr gal
              \<and> length cbl = length cbb \<and> length gml = length gmb
              \<and> length cal = length cba \<and> length gal = length gma
              \<and> ob' = ob\<lparr>internal_order_book := Some \<lparr>bids = cbl @ gml, asks = cal @ gal\<rparr>\<rparr>)
         \<and> fst (build_internal_order_book pf ob)
             = fst (build_internal_order_book pf (ob\<lparr>depth := None\<rparr>))
         \<and> internal_order_book (snd (build_internal_order_book pf ob))
             = internal_order_book (snd (build_internal_order_book pf (ob\<lparr>depth := None\<rparr>)))"
proof -
  have 1: "(build_internal_order_book pf ob = (None, ob')) =
           (\<exists>cbb gmb cba gma cbl gml cal gal.
                side_of (coinbase_order_book ob) ''bids'' = Some cbb
              \<and> side_of (gemini_order_book ob) ''bids'' = Some gmb
              \<and> side_of (coinbase_order_book ob) ''asks'' = Some cba
              \<and> side_of (gemini_order_book ob) ''asks'' = Some gma
              \<and> map (coinbase_level pf) cbb = map Inr cbl
              \<and> map (gemini_level pf) gmb = map Inr gml
              \<and> map (coinbase_level pf) cba = map Inr cal
              \<and> map (gemini_level pf) gma = map Inr gal
              \<and> length cbl = length cbb \<and> length gml = length gmb
              \<and> length cal = length cba \<and> length gal = length gma
              \<and> ob' = ob\<lparr>internal_order_book := Some \<lparr>bids = cbl @ gml, asks = cal @ gal\<rparr>\<rparr>)"
    unfolding build_ok_iff assms slice_to_unbounded
    by (auto dest: map_Inr_length)
  have e: "new_internal_book pf (Some 0) cb gm = new_internal_book pf None cb gm" for cb gm
    by (simp add: new_internal_book_def depth_levels_zero)
  have 2: "fst (build_internal_order_book pf ob)
             = fst (build_internal_order_book pf (ob\<lparr>depth := None\<rparr>))"
    by (simp add: build_internal_order_book_def assms e split: sum.splits)
  have 3: "internal_order_book (snd (build_internal_order_book pf ob))
             = internal_order_book (snd (build_internal_order_book pf (ob\<lparr>depth := None\<rparr>)))"
    by (simp add: build_internal_order_book_def assms e split: sum.splits)
  from 1 2 3 show ?thesis by (intro conjI)
qed

theorem depth_zero_is_unbounded_witness:
  "depth (scenario_fetched\<lparr>depth := Some 0\<rparr>) = Some 0
   \<and> build_internal_order_book Inr (scenario_fetched\<lparr>depth := Some 0\<rparr>) =
       (None, scenario_fetched\<lparr>depth := Some 0, internal_order_book := Some full_book\<rparr>)
   \<and> length (bids full_book) = 3 + 1 \<and> length (asks full_book) = 2 + 1
   \<and> fst (build_internal_order_book Inr (scenario_fetched\<lparr>depth := None\<rparr>)) = None
   \<and> internal_order_book (snd (build_internal_order_book Inr (scenario_fetched\<lparr>depth := None\<rparr>)))
       = Some full_book"
proof -
  have h: "depth (scenario_fetched\<lparr>depth := Some 0\<rparr>) = Some 0" by simp
  note t = depth_zero_is_unbounded [OF h, where pf = Inr
      and ob' = "scenario_fetched\<lparr>depth := Some 0, internal_order_book := Some full_book\<rparr>"]
  have s: "side_of (coinbase_order_book scenario_fetched) ''bids''
             = Some [[99, 1, 4], [98, 2, 1], [97, 5, 2]]"
    "side_of (gemini_order_book scenario_fetched) ''bids''
             = Some [[(''price'', 197 / 2), (''amount'', 1)]]"
    "side_of (coinbase_order_book scenario_fetched) ''asks'' = Some [[100, 1, 1], [101, 2, 3]]"
    "side_of (gemini_order_book scenario_fetched) ''asks''
             = Some [[(''price'', 201 / 2), (''amount'', 3 / 2)]]"
    by (simp_all add: scenario_fetched_def scenario_coinbase_def scenario_gemini_def side_of_def)
  have p: "map (coinbase_level Inr) [[99, 1, 4], [98, 2, 1], [97, 5, 2]]
             = map Inr [coinbase_lv 99 1, coinbase_lv 98 2, coinbase_lv 97 5]"
    "map (gemini_level Inr) [[(''price'', 197 / 2), (''amount'', 1)]]
             = map Inr [gemini_lv (197 / 2) 1]"
    "map (coinbase_level Inr) [[100, 1, 1], [101, 2, 3]]
             = map Inr [coinbase_lv 100 1, coinbase_lv 101 2]"
    "map (gemini_level Inr) [[(''price'', 201 / 2), (''amount'', 3 / 2)]]
             = map Inr [gemini_lv (201 / 2) (3 / 2)]"
    by (simp_all add: coinbase_level_def gemini_level_def coinbase_lv_def gemini_lv_def)
  have 1: "build_internal_order_book Inr (scenario_fetched\<lparr>depth := Some 0\<rparr>) =
       (None, scenario_fetched\<lparr>depth := Some 0, internal_order_book := Some full_book\<rparr>)"
    apply (rule t [THEN conjunct1, THEN iffD2])
    apply (rule exI [of _ "[[99, 1, 4], [98, 2, 1], [97, 5, 2]]"])
    apply (rule exI [of _ "[[(''price'', 197 / 2), (''amount'', 1)]]"])
    apply (rule exI [of _ "[[100, 1, 1], [101, 2, 3]]"])
    apply (rule exI [of _ "[[(''price'', 201 / 2), (''amount'', 3 / 2)]]"])
    apply (rule exI [of _ "[coinbase_lv 99 1, coinbase_lv 98 2, coinbase_lv 97 5]"])
    apply (rule exI [of _ "[gemini_lv (197 / 2) 1]"])
    apply (rule exI [of _ "[coinbase_lv 100 1, coinbase_lv 101 2]"])
    apply (rule exI [of _ "[gemini_lv (201 / 2) (3 / 2)]"])
    apply (insert p)
    apply (simp add: s full_book_def)
    done
  have l: "length (bids full_book) = 3 + 1" "length (asks full_book) = 2 + 1"
    by (simp_all add: full_book_def)
  from t 1 have 2: "fst (build_internal_order_book Inr (scenario_fetched\<lparr>depth := None\<rparr>)) = None"
    "internal_order_book (snd (build_internal_order_book Inr (scenario_fetched\<lparr>depth := None\<rparr>)))
       = Some full_book"
    by simp_all
  from h 1 l 2 show ?thesis by (intro conjI)
qed

subsection \<open>Execution prices\<close>

lemma fill_loop_nonpositive:
  "remaining \<le> 0 \<Longrightarrow> fill_loop fl lvs remaining tot fills = (remaining, tot, fills)"
  by (cases lvs) simp_all

lemma fill_loop_within:
  "fill_loop fl lvs remaining tot fills = (r, t, fs) \<Longrightarrow>
   \<exists>new. fs = fills @ new \<and> list_all2 fill_within new (take (length new) lvs)"
proof (induction lvs arbitrary: remaining tot fills)
  case Nil
  then show ?case by simp
next
  case (Cons lv lvs)
  show ?case
  proof (cases "remaining \<le> 0")
    case True
    with Cons.prems show ?thesis by simp
  next
    case False
    let ?f = "(exchange lv, min (size_lvl lv) remaining, price lv,
               fl (min (size_lvl lv) remaining * price lv))"
    from False Cons.prems
    have "fill_loop fl lvs (fl (remaining - min (size_lvl lv) remaining))
            (fl (tot + fl (min (size_lvl lv) remaining * price lv))) (fills @ [?f]) = (r, t, fs)"
      by (simp add: Let_def)
    from Cons.IH [OF this] obtain new where
      new: "fs = (fills @ [?f]) @ new" "list_all2 fill_within new (take (length new) lvs)"
      by blast
    have "fill_within ?f lv" by (simp add: fill_within_def)
    with new have "fs = fills @ (?f # new)"
      "list_all2 fill_within (?f # new) (take (length (?f # new)) (lv # lvs))"
      by simp_all
    then show ?thesis by blast
  qed
qed

lemma no_rounding_exact: "no_rounding exact lvs remaining tot"
  by (induction lvs arbitrary: remaining tot) (simp_all add: exact_def Let_def)
















text \<open>
  Claim C7, as the code has it. For a requested quantity that is zero or negative nothing
  is filled on either side (no fills, filled quantity \<open>0\<close>, value \<open>0\<close>), and the remaining
  quantity is the requested quantity itself.
\<close>

theorem nonpositive_quantity_no_fills:
  assumes "q \<le> 0" and "internal_order_book ob = Some b"
  shows "calculate_execution_prices fl ob q =
           Some \<lparr>remaining_buy = q, cost_buy = 0, buy_fills = [],
                 remaining_sell = q, revenue_sell = 0, sell_fills = []\<rparr>
         \<and> filled_qty [] = 0"
  using assms by (simp add: calculate_execution_prices_def fill_loop_nonpositive filled_qty_def)

theorem nonpositive_quantity_no_fills_witness:
  "(- 1 :: rat) \<le> 0 \<and> internal_order_book scenario_ob = Some scenario_book
   \<and> calculate_execution_prices binary64 scenario_ob (- 1) =
       Some \<lparr>remaining_buy = - 1, cost_buy = 0, buy_fills = [],
             remaining_sell = - 1, revenue_sell = 0, sell_fills = []\<rparr>
   \<and> filled_qty [] = 0"
proof -
  have h1: "(- 1 :: rat) \<le> 0" by simp
  have h2: "internal_order_book scenario_ob = Some scenario_book"
    by (simp add: scenario_ob_def)
  from nonpositive_quantity_no_fills [OF h1 h2, of binary64] h1 h2 show ?thesis by blast
qed

text \<open>
  Claim C7 as stated fails for a negative quantity: the remainder of a request for \<open>-1\<close> is
  \<open>-1\<close>, not \<open>max(-1, 0) = 0\<close>.
\<close>

theorem negative_quantity_remainder_counterexample:
  "map_option remaining_buy (calculate_execution_prices binary64 scenario_ob (- 1))
     \<noteq> Some (max (- 1) 0)"
  by (simp add: calculate_execution_prices_def scenario_ob_def fill_loop_nonpositive)

text \<open>
  Claim C9. On the buy side and on the sell side, the fills are, in order, fills of the
  first levels of the sorted side, and each takes at most the size of its level. This holds
  for every rounding.
\<close>

theorem fill_within_level_size:
  assumes "internal_order_book ob = Some b"
  shows "\<exists>r. calculate_execution_prices fl ob q = Some r
           \<and> list_all2 fill_within (buy_fills r) (take (length (buy_fills r)) (sorted_asks b))
           \<and> list_all2 fill_within (sell_fills r) (take (length (sell_fills r)) (sorted_bids b))"
proof -
  obtain rb cb bf where buy: "fill_loop fl (sorted_asks b) q 0 [] = (rb, cb, bf)"
    by (cases "fill_loop fl (sorted_asks b) q 0 []") auto
  obtain rs cs sf where sell: "fill_loop fl (sorted_bids b) q 0 [] = (rs, cs, sf)"
    by (cases "fill_loop fl (sorted_bids b) q 0 []") auto
  from fill_loop_within [OF buy] have 1: "list_all2 fill_within bf (take (length bf) (sorted_asks b))"
    by auto
  from fill_loop_within [OF sell] have 2: "list_all2 fill_within sf (take (length sf) (sorted_bids b))"
    by auto
  show ?thesis
    using assms buy sell 1 2 by (simp add: calculate_execution_prices_def)
qed

theorem fill_within_level_size_witness:
  "internal_order_book scenario_ob = Some scenario_book
   \<and> (\<exists>r. calculate_execution_prices binary64 scenario_ob 2 = Some r
          \<and> list_all2 fill_within (buy_fills r)
               (take (length (buy_fills r)) (sorted_asks scenario_book))
          \<and> list_all2 fill_within (sell_fills r)
               (take (length (sell_fills r)) (sorted_bids scenario_book)))"
proof -
  have h1: "internal_order_book scenario_ob = Some scenario_book"
    by (simp add: scenario_ob_def)
  from fill_within_level_size [OF h1, of binary64 2] h1 show ?thesis by blast
qed


end
